theory Spec2Isabelle
  imports Complex_Main "HOL-Library.Word"
begin

unbundle bit_operations_syntax

section \<open>Go values used by binary-cookie-extractor.go\<close>

text \<open>
  The program is Go. A \<^verbatim>\<open>[]byte\<close> is a window into a backing array: it has a length and
  a capacity, and the slice expression \<^verbatim>\<open>s[lo:hi]\<close> is checked against the capacity,
  \<^verbatim>\<open>s[lo:]\<close> against the length. Every \<^verbatim>\<open>[]byte\<close> the decoder slices is a window into the
  file buffer, which is never written, so a slice is modelled by the bytes it shows
  (\<open>elems\<close>) and the bytes of the backing array that follow them up to the capacity
  (\<open>spare\<close>). An out-of-range slice expression is a run-time panic; \<^verbatim>\<open>os.Exit(1)\<close> ends
  the process. Both are values of \<open>failure\<close>.

  \<^verbatim>\<open>uint64\<close> values are natural numbers, with the wrap-around written out where the
  program does arithmetic on them; \<^verbatim>\<open>int\<close> and \<^verbatim>\<open>int64\<close> are 64 bits wide.

  The source file holds two revisions of the program, one after the other. The model
  follows the first, version 1.0; the functions modelled here read the same in the older
  revision, except that its \<^verbatim>\<open>decodeCookies\<close> keeps no list of all cookies. The debug prints
  have no effect on the result and are left out.
\<close>

type_synonym byte = "8 word"

datatype failure = Panic | Exit1

record bslice =
  elems :: "byte list"
  spare :: "byte list"

definition mem :: "bslice \<Rightarrow> byte list" where
  "mem s = elems s @ spare s"

definition slen :: "bslice \<Rightarrow> nat" where
  "slen s = length (elems s)"

definition scap :: "bslice \<Rightarrow> nat" where
  "scap s = length (elems s) + length (spare s)"

text \<open>\<^verbatim>\<open>s[lo:hi]\<close>: in range when \<open>0 \<le> lo \<le> hi \<le> cap(s)\<close>.\<close>

definition sliceLoHi :: "bslice \<Rightarrow> int \<Rightarrow> int \<Rightarrow> failure + bslice" where
  "sliceLoHi s lo hi =
     (if 0 \<le> lo \<and> lo \<le> hi \<and> hi \<le> int (scap s)
      then Inr \<lparr>elems = take (nat hi - nat lo) (drop (nat lo) (mem s)),
                spare = drop (nat hi) (mem s)\<rparr>
      else Inl Panic)"

text \<open>\<^verbatim>\<open>s[lo:]\<close>: the upper bound is \<open>len(s)\<close>, so in range when \<open>0 \<le> lo \<le> len(s)\<close>.\<close>

definition sliceFrom :: "bslice \<Rightarrow> int \<Rightarrow> failure + bslice" where
  "sliceFrom s lo =
     (if 0 \<le> lo \<and> lo \<le> int (slen s)
      then Inr \<lparr>elems = drop (nat lo) (elems s), spare = spare s\<rparr>
      else Inl Panic)"

definition bindE :: "failure + 'a \<Rightarrow> ('a \<Rightarrow> failure + 'b) \<Rightarrow> failure + 'b" where
  "bindE m f = (case m of Inl e \<Rightarrow> Inl e | Inr x \<Rightarrow> f x)"

definition u64 :: "nat \<Rightarrow> nat" where
  "u64 n = n mod 2 ^ 64"

text \<open>The conversion \<^verbatim>\<open>int(x)\<close> of a \<^verbatim>\<open>uint64\<close>.\<close>

definition goInt :: "nat \<Rightarrow> int" where
  "goInt n = (if n < 2 ^ 63 then int n else int n - 2 ^ 64)"

section \<open>Helpers of the decoder\<close>

text \<open>
  \<^verbatim>\<open>reverseByteSlice\<close>: the loop runs \<open>i\<close> from \<open>len(data) - 1\<close> down to \<open>0\<close> and appends
  \<open>data[i]\<close> to the result.
\<close>

function reverseLoop :: "byte list \<Rightarrow> int \<Rightarrow> byte list \<Rightarrow> byte list" where
  "reverseLoop data i result =
     (if i \<ge> 0 then reverseLoop data (i - 1) (result @ [data ! nat i]) else result)"
  by pat_completeness auto
termination
  by (relation "measure (\<lambda>(data, i, result). nat (i + 1))") auto

declare reverseLoop.simps [simp del]

definition reverseByteSlice :: "byte list \<Rightarrow> byte list" where
  "reverseByteSlice data = reverseLoop data (int (length data) - 1) []"

text \<open>
  \<^verbatim>\<open>scanUntilNullByte\<close>: the loop runs \<open>i\<close> from \<open>0\<close> while \<open>i < len(data)\<close>, stops at the
  first zero byte and appends every byte before it.
\<close>

function scanLoop :: "byte list \<Rightarrow> nat \<Rightarrow> byte list \<Rightarrow> byte list" where
  "scanLoop data i result =
     (if i < length data
      then (if data ! i = 0 then result else scanLoop data (i + 1) (result @ [data ! i]))
      else result)"
  by pat_completeness auto
termination
  by (relation "measure (\<lambda>(data, i, result). length data - i)") auto

declare scanLoop.simps [simp del]

definition scanUntilNullByte :: "byte list \<Rightarrow> byte list" where
  "scanUntilNullByte data = scanLoop data 0 []"

subsection \<open>encoding/hex and strconv\<close>

text \<open>
  \<^verbatim>\<open>hex.EncodeToString\<close> writes two characters of \<open>hextable\<close> for each byte, the high
  nibble first.
\<close>

definition hextable :: string where
  "hextable = ''0123456789abcdef''"

fun EncodeToString :: "byte list \<Rightarrow> string" where
  "EncodeToString [] = []"
| "EncodeToString (v # src) =
     hextable ! unat (drop_bit 4 v) # hextable ! unat (v AND 0x0f) # EncodeToString src"

text \<open>
  \<^verbatim>\<open>strconv.ParseUint(s, base, 64)\<close> for a base between 2 and 36. The result is the pair
  of the value and the error: an empty string, a character that is no digit and a digit
  not below the base give \<open>0\<close> and a syntax error; a value that does not fit 64 bits gives
  \<open>2^64 - 1\<close> and a range error.
\<close>

datatype numError = ErrSyntax | ErrRange

definition maxUint64 :: nat where
  "maxUint64 = 2 ^ 64 - 1"

definition lower :: "nat \<Rightarrow> nat" where
  "lower c = c OR 32"

definition digitVal :: "char \<Rightarrow> nat option" where
  "digitVal ch =
     (let c = (of_char ch :: nat) in
      if 48 \<le> c \<and> c \<le> 57 then Some (c - 48)
      else if 97 \<le> lower c \<and> lower c \<le> 122 then Some (lower c - 97 + 10)
      else None)"

fun parseDigits :: "nat \<Rightarrow> nat \<Rightarrow> string \<Rightarrow> nat \<times> numError option" where
  "parseDigits base n [] = (n, None)"
| "parseDigits base n (c # cs) =
     (case digitVal c of
        None \<Rightarrow> (0, Some ErrSyntax)
      | Some d \<Rightarrow>
          if d \<ge> base then (0, Some ErrSyntax)
          else if n \<ge> maxUint64 div base + 1 then (maxUint64, Some ErrRange)
          else if n * base + d > maxUint64 then (maxUint64, Some ErrRange)
          else parseDigits base (n * base + d) cs)"

definition ParseUint :: "string \<Rightarrow> nat \<Rightarrow> nat \<times> numError option" where
  "ParseUint s base = (if s = [] then (0, Some ErrSyntax) else parseDigits base 0 s)"

text \<open>\<^verbatim>\<open>convertHexToUint\<close>: hex-encode, parse in base 16, drop the error.\<close>

definition convertHexToUint :: "byte list \<Rightarrow> nat" where
  "convertHexToUint bytes = (let a = EncodeToString bytes; (b, _) = ParseUint a 16 in b)"

subsection \<open>math.Float64frombits, the conversion to int64 and time.Unix\<close>

text \<open>
  \<^verbatim>\<open>math.Float64frombits(b)\<close> is the IEEE-754 binary64 number whose bit pattern is \<open>b\<close>:
  one sign bit \<open>s\<close>, eleven exponent bits \<open>e\<close>, fifty-two fraction bits \<open>m\<close>. Its value is
  \<open>\<plusminus> (2\<^sup>5\<^sup>2 + m) \<times> 2\<^bsup>e - 1075\<^esup>\<close> for a normal number and \<open>\<plusminus> m \<times> 2\<^bsup>- 1074\<^esup>\<close> for a
  subnormal one (\<open>e = 0\<close>). \<open>float64Value\<close> is that value as a real number, \<open>None\<close>
  for the infinities and the NaNs (\<open>e = 2047\<close>).

  The conversion \<^verbatim>\<open>int64(c)\<close> discards the fraction (truncation towards zero). When the
  result does not fit an \<^verbatim>\<open>int64\<close>, or \<open>c\<close> is an infinity or a NaN, Go leaves the result
  to the implementation: it is the parameter \<open>oor\<close>, a function of the bit pattern.
\<close>

definition wrap64 :: "int \<Rightarrow> int" where
  "wrap64 i = (i + 2 ^ 63) mod 2 ^ 64 - 2 ^ 63"

definition float64Value :: "nat \<Rightarrow> real option" where
  "float64Value b =
     (let s = b div 2 ^ 63;
          e = (b div 2 ^ 52) mod 2 ^ 11;
          m = b mod 2 ^ 52;
          sig = (if e = 0 then m else 2 ^ 52 + m);
          ex = (if e = 0 then 1 else e);
          mag = (if 1075 \<le> ex then of_nat sig * 2 ^ (ex - 1075)
                 else of_nat sig / 2 ^ (1075 - ex))
      in if e = 2047 then None else Some (if s = 1 then - mag else mag))"

definition truncQ :: "real \<Rightarrow> int" where
  "truncQ q = (if 0 \<le> q then \<lfloor>q\<rfloor> else - \<lfloor>- q\<rfloor>)"

definition float64ToInt64 :: "(nat \<Rightarrow> int) \<Rightarrow> nat \<Rightarrow> int" where
  "float64ToInt64 oor b =
     (case float64Value b of
        None \<Rightarrow> wrap64 (oor b)
      | Some q \<Rightarrow>
          if - (2 ^ 63) \<le> truncQ q \<and> truncQ q < 2 ^ 63 then truncQ q else wrap64 (oor b))"

text \<open>
  One such implementation: on amd64 the conversion instruction answers every value it
  cannot represent with the smallest \<^verbatim>\<open>int64\<close>.
\<close>

definition amd64Conv :: "nat \<Rightarrow> int" where
  "amd64Conv b = - (2 ^ 63)"

text \<open>
  \<^verbatim>\<open>convertHexToCoreDataTime\<close>. The result \<^verbatim>\<open>time.Unix(d+978307200, 0)\<close> is modelled by its
  count of Unix seconds; the addition is an \<^verbatim>\<open>int64\<close> addition.
\<close>

definition convertHexToCoreDataTime :: "(nat \<Rightarrow> int) \<Rightarrow> byte list \<Rightarrow> int" where
  "convertHexToCoreDataTime oor bytes =
     (let a = EncodeToString (reverseByteSlice bytes);
          (b, _) = ParseUint a 16;
          d = float64ToInt64 oor b
      in wrap64 (d + 978307200))"

subsection \<open>The value of a byte field\<close>

text \<open>
  The number a sequence of bytes denotes, read in stored order (big-endian, the first byte
  the most significant) and read little-endian (the first byte the least significant).
  These two follow the words of the format description, not the code.
\<close>

fun be_val :: "byte list \<Rightarrow> nat" where
  "be_val [] = 0"
| "be_val (b # bs) = unat b * 256 ^ length bs + be_val bs"

fun le_val :: "byte list \<Rightarrow> nat" where
  "le_val [] = 0"
| "le_val (b # bs) = unat b + 256 * le_val bs"

text \<open>
  The four-byte field at bytes \<open>[k, k + 4)\<close> of a slice, read in stored order and read
  little-endian. For a slice shorter than \<open>k + 4\<close> the field runs on into the backing
  array, as the slice expression of the program does.
\<close>

definition fieldBE :: "bslice \<Rightarrow> nat \<Rightarrow> nat" where
  "fieldBE s k = be_val (take 4 (drop k (mem s)))"

definition fieldLE :: "bslice \<Rightarrow> nat \<Rightarrow> nat" where
  "fieldLE s k = le_val (take 4 (drop k (mem s)))"

text \<open>
  The text at offset \<open>off\<close> of a record: the bytes of the record from \<open>off\<close> up to, and
  without, the first zero byte, or up to the end of the record when there is none.
\<close>

definition textAt :: "bslice \<Rightarrow> nat \<Rightarrow> byte list" where
  "textAt rb off = takeWhile (\<lambda>b. b \<noteq> 0) (drop off (elems rb))"

section \<open>The data model\<close>

text \<open>
  The three structs of the program. Both \<^verbatim>\<open>page\<close> and \<^verbatim>\<open>cookie\<close> have a field
  \<^verbatim>\<open>rawBytes\<close>; the page's is \<open>pageRawBytes\<close> here. A Go string is a byte sequence.
  \<^verbatim>\<open>Expires\<close> and \<^verbatim>\<open>LastAccessed\<close> hold the text of a \<^verbatim>\<open>time.Time\<close>; they are modelled
  by the Unix seconds of that time, \<open>None\<close> for the empty string of a fresh cookie.
\<close>

record cookie =
  rawBytes :: bslice
  Size :: nat
  Name :: "byte list"
  Value :: "byte list"
  Domain' :: "byte list"
  Path :: "byte list"
  Flags :: string
  Expires :: "int option"
  LastAccessed :: "int option"

record page =
  pageRawBytes :: bslice
  numCookiesInPage :: nat
  cookieOffsets :: "nat list"
  cookies :: "cookie list"

record pages =
  pages :: "page list"
  numPages :: nat
  pageSizes :: "nat list"
  headerSize :: nat

definition nilSlice :: bslice where
  "nilSlice = \<lparr>elems = [], spare = []\<rparr>"

text \<open>The zero values of \<^verbatim>\<open>var newCookie cookie\<close> and \<^verbatim>\<open>var page page\<close>.\<close>

definition zeroCookie :: cookie where
  "zeroCookie = \<lparr>rawBytes = nilSlice, Size = 0, Name = [], Value = [], Domain' = [],
     Path = [], Flags = [], Expires = None, LastAccessed = None\<rparr>"

definition zeroPage :: page where
  "zeroPage = \<lparr>pageRawBytes = nilSlice, numCookiesInPage = 0, cookieOffsets = [], cookies = []\<rparr>"

section \<open>The decoder\<close>

subsection \<open>checkFileMagicNumber\<close>

text \<open>The four bytes of the ASCII text \<^verbatim>\<open>cook\<close>.\<close>

definition cook :: "byte list" where
  "cook = [0x63, 0x6f, 0x6f, 0x6b]"

text \<open>
  \<^verbatim>\<open>checkFileMagicNumber\<close> takes \<^verbatim>\<open>data[:4]\<close> and ends the process with status 1 when
  it is not \<^verbatim>\<open>cook\<close>.
\<close>

definition checkFileMagicNumber :: "bslice \<Rightarrow> failure + unit" where
  "checkFileMagicNumber data =
     bindE (sliceLoHi data 0 4) (\<lambda>magicNum.
       if elems magicNum \<noteq> cook then Inl Exit1 else Inr ())"

subsection \<open>extractPages and parseSizeOfPages\<close>

text \<open>
  \<^verbatim>\<open>parseSizeOfPages\<close>: the loop runs \<open>i\<close> from \<open>0\<close> while \<open>i < int(pages)\<close>; each round
  converts \<^verbatim>\<open>data[startOffset:endOffset]\<close> and moves both offsets by four.
\<close>

function parseSizeLoop ::
  "bslice \<Rightarrow> int \<Rightarrow> int \<Rightarrow> int \<Rightarrow> int \<Rightarrow> nat list \<Rightarrow> failure + nat list" where
  "parseSizeLoop data n i startOffset endOffset result =
     (if i < n
      then (case sliceLoHi data startOffset endOffset of
              Inl e \<Rightarrow> Inl e
            | Inr s \<Rightarrow>
                parseSizeLoop data n (i + 1) (startOffset + 4) (endOffset + 4)
                  (result @ [convertHexToUint (elems s)]))
      else Inr result)"
  by pat_completeness auto
termination
  by (relation "measure (\<lambda>(data, n, i, startOffset, endOffset, result). nat (n - i))") auto

declare parseSizeLoop.simps [simp del]

definition parseSizeOfPages :: "bslice \<Rightarrow> nat \<Rightarrow> failure + nat list" where
  "parseSizeOfPages data pgs = parseSizeLoop data (goInt pgs) 0 8 12 []"

text \<open>
  The loop of \<^verbatim>\<open>extractPages\<close> over \<^verbatim>\<open>pages.pageSizes\<close>, by recursion on the sizes still to
  visit: the last size takes \<^verbatim>\<open>data[headerSize+offsetCounter:]\<close>, every other size takes
  \<^verbatim>\<open>data[headerSize+offsetCounter : headerSize+pageSizes[i]]\<close> and adds the size to
  \<^verbatim>\<open>offsetCounter\<close>.
\<close>

fun extractPagesLoop ::
  "bslice \<Rightarrow> nat \<Rightarrow> nat list \<Rightarrow> nat \<Rightarrow> page list \<Rightarrow> failure + page list" where
  "extractPagesLoop data hs [] offsetCounter acc = Inr acc"
| "extractPagesLoop data hs [sz] offsetCounter acc =
     (case sliceFrom data (int (u64 (hs + offsetCounter))) of
        Inl e \<Rightarrow> Inl e
      | Inr rb \<Rightarrow> Inr (acc @ [zeroPage\<lparr>pageRawBytes := rb\<rparr>]))"
| "extractPagesLoop data hs (sz # rest) offsetCounter acc =
     (case sliceLoHi data (int (u64 (hs + offsetCounter))) (int (u64 (hs + sz))) of
        Inl e \<Rightarrow> Inl e
      | Inr rb \<Rightarrow>
          extractPagesLoop data hs rest (u64 (offsetCounter + sz))
            (acc @ [zeroPage\<lparr>pageRawBytes := rb\<rparr>]))"

definition extractPages :: "bslice \<Rightarrow> failure + pages" where
  "extractPages data =
     bindE (sliceLoHi data 4 8) (\<lambda>np.
       let numPages = convertHexToUint (elems np) in
       bindE (parseSizeOfPages data numPages) (\<lambda>pageSizes.
         let headerSize = u64 (numPages * 4 + 8) in
         bindE (extractPagesLoop data headerSize pageSizes 0 []) (\<lambda>pgs.
           Inr \<lparr>pages = pgs, numPages = numPages, pageSizes = pageSizes,
                headerSize = headerSize\<rparr>)))"

subsection \<open>extractCookiesFromPages\<close>

text \<open>
  The second loop of the body: \<open>j\<close> runs from \<open>0\<close> while \<open>j < int(numCookiesInPage)\<close> and
  appends the converted, byte-reversed \<^verbatim>\<open>rawBytes[startOffset:endOffset]\<close>.
\<close>

function offsetsLoop ::
  "bslice \<Rightarrow> int \<Rightarrow> int \<Rightarrow> int \<Rightarrow> int \<Rightarrow> nat list \<Rightarrow> failure + nat list" where
  "offsetsLoop rb n j startOffset endOffset offs =
     (if j < n
      then (case sliceLoHi rb startOffset endOffset of
              Inl e \<Rightarrow> Inl e
            | Inr s \<Rightarrow>
                offsetsLoop rb n (j + 1) (startOffset + 4) (endOffset + 4)
                  (offs @ [convertHexToUint (reverseByteSlice (elems s))]))
      else Inr offs)"
  by pat_completeness auto
termination
  by (relation "measure (\<lambda>(rb, n, j, startOffset, endOffset, offs). nat (n - j))") auto

declare offsetsLoop.simps [simp del]

text \<open>
  The third loop, over \<^verbatim>\<open>cookieOffsets\<close>, by recursion on the offsets still to visit:
  the last offset takes \<^verbatim>\<open>rawBytes[int(cookieOffsets[k]):]\<close>, every other one
  \<^verbatim>\<open>rawBytes[int(cookieOffsets[k]):int(cookieOffsets[k+1])]\<close>.
\<close>

fun rawCookiesLoop :: "bslice \<Rightarrow> nat list \<Rightarrow> cookie list \<Rightarrow> failure + cookie list" where
  "rawCookiesLoop rb [] acc = Inr acc"
| "rawCookiesLoop rb [off] acc =
     (case sliceFrom rb (goInt off) of
        Inl e \<Rightarrow> Inl e
      | Inr s \<Rightarrow> Inr (acc @ [zeroCookie\<lparr>rawBytes := s\<rparr>]))"
| "rawCookiesLoop rb (off # off' # rest) acc =
     (case sliceLoHi rb (goInt off) (goInt off') of
        Inl e \<Rightarrow> Inl e
      | Inr s \<Rightarrow> rawCookiesLoop rb (off' # rest) (acc @ [zeroCookie\<lparr>rawBytes := s\<rparr>]))"

text \<open>
  The body of the outer loop for one page. The cookie count is the byte-reversed
  \<^verbatim>\<open>rawBytes[4:8]\<close>, hex-encoded and parsed in base 10, the error dropped.
\<close>

definition extractCookiesFromPage :: "page \<Rightarrow> failure + page" where
  "extractCookiesFromPage pg =
     bindE (sliceLoHi (pageRawBytes pg) 4 8) (\<lambda>cnt.
       let (a, _) = ParseUint (EncodeToString (reverseByteSlice (elems cnt))) 10;
           pg1 = pg\<lparr>numCookiesInPage := a\<rparr>
       in
       bindE (offsetsLoop (pageRawBytes pg1) (goInt (numCookiesInPage pg1)) 0 8 12
                (cookieOffsets pg1)) (\<lambda>offs.
         let pg2 = pg1\<lparr>cookieOffsets := offs\<rparr> in
         bindE (rawCookiesLoop (pageRawBytes pg2) (cookieOffsets pg2) (cookies pg2)) (\<lambda>cs.
           Inr (pg2\<lparr>cookies := cs\<rparr>))))"

fun extractCookiesLoop :: "page list \<Rightarrow> failure + page list" where
  "extractCookiesLoop [] = Inr []"
| "extractCookiesLoop (pg # rest) =
     (case extractCookiesFromPage pg of
        Inl e \<Rightarrow> Inl e
      | Inr pg' \<Rightarrow>
          (case extractCookiesLoop rest of
             Inl e \<Rightarrow> Inl e
           | Inr rest' \<Rightarrow> Inr (pg' # rest')))"

text \<open>
  \<^verbatim>\<open>extractCookiesFromPages\<close> receives the \<^verbatim>\<open>pages\<close> struct by value and writes through
  \<^verbatim>\<open>pages.pages[i]\<close>, which shares its array with the caller's: the caller sees the updated
  pages, so the model returns them.
\<close>

definition extractCookiesFromPages :: "pages \<Rightarrow> failure + pages" where
  "extractCookiesFromPages ps =
     bindE (extractCookiesLoop (pages ps)) (\<lambda>pgs. Inr (ps\<lparr>pages := pgs\<rparr>))"

subsection \<open>decodeCookies\<close>

definition uint64OfInt :: "int \<Rightarrow> nat" where
  "uint64OfInt i = nat (i mod 2 ^ 64)"

definition flagText :: "int \<Rightarrow> string" where
  "flagText b =
     (if b = 0 then ''None''
      else if b = 1 then ''Secure''
      else if b = 4 then ''HttpOnly''
      else if b = 5 then ''Secure; HttpOnly''
      else ''Unknown'')"

text \<open>
  The body of the inner loop for one cookie, in the order of the source: the size, the
  flags, the four offsets, the four texts, the two timestamps. The cookie written back to
  \<^verbatim>\<open>pages.pages[i].cookies[j]\<close> and the cookie \<^verbatim>\<open>aCookie\<close> appended to \<^verbatim>\<open>allCookies\<close> have the
  same fields.
\<close>

definition decodeCookie :: "(nat \<Rightarrow> int) \<Rightarrow> cookie \<Rightarrow> failure + cookie" where
  "decodeCookie oor ck =
     (let rb = rawBytes ck in
      bindE (sliceLoHi rb 0 4) (\<lambda>a.
      let intA = goInt (convertHexToUint (reverseByteSlice (elems a))) in
      bindE (sliceLoHi rb 8 12) (\<lambda>fb.
      let b = goInt (convertHexToUint (reverseByteSlice (elems fb))) in
      bindE (sliceLoHi rb 16 20) (\<lambda>dob.
      let domainOffset = convertHexToUint (reverseByteSlice (elems dob)) in
      bindE (sliceLoHi rb 20 24) (\<lambda>nob.
      let nameOffset = convertHexToUint (reverseByteSlice (elems nob)) in
      bindE (sliceLoHi rb 24 28) (\<lambda>pob.
      let pathOffset = convertHexToUint (reverseByteSlice (elems pob)) in
      bindE (sliceLoHi rb 28 32) (\<lambda>vob.
      let valueOffset = convertHexToUint (reverseByteSlice (elems vob)) in
      bindE (sliceFrom rb (int nameOffset)) (\<lambda>ns.
      bindE (sliceFrom rb (int valueOffset)) (\<lambda>vs.
      bindE (sliceFrom rb (int domainOffset)) (\<lambda>ds.
      bindE (sliceFrom rb (int pathOffset)) (\<lambda>pths.
      bindE (sliceLoHi rb 40 48) (\<lambda>expiresRaw.
      bindE (sliceLoHi rb 48 56) (\<lambda>lastAccessedRaw.
        Inr (ck\<lparr>Size := uint64OfInt intA,
                Name := scanUntilNullByte (elems ns),
                Value := scanUntilNullByte (elems vs),
                Domain' := scanUntilNullByte (elems ds),
                Path := scanUntilNullByte (elems pths),
                Flags := flagText b,
                Expires := Some (convertHexToCoreDataTime oor (elems expiresRaw)),
                LastAccessed :=
                  Some (convertHexToCoreDataTime oor (elems lastAccessedRaw))\<rparr>))))))))))))))"

text \<open>The inner loop over the cookies of a page, then the outer loop over the pages.\<close>

fun decodeCookieList ::
  "(nat \<Rightarrow> int) \<Rightarrow> cookie list \<Rightarrow> cookie list \<Rightarrow> failure + (cookie list \<times> cookie list)" where
  "decodeCookieList oor [] allCookies = Inr ([], allCookies)"
| "decodeCookieList oor (ck # rest) allCookies =
     (case decodeCookie oor ck of
        Inl e \<Rightarrow> Inl e
      | Inr ck' \<Rightarrow>
          (case decodeCookieList oor rest (allCookies @ [ck']) of
             Inl e \<Rightarrow> Inl e
           | Inr (rest', all') \<Rightarrow> Inr (ck' # rest', all')))"

fun decodePageList ::
  "(nat \<Rightarrow> int) \<Rightarrow> page list \<Rightarrow> cookie list \<Rightarrow> failure + (page list \<times> cookie list)" where
  "decodePageList oor [] allCookies = Inr ([], allCookies)"
| "decodePageList oor (pg # rest) allCookies =
     (case decodeCookieList oor (cookies pg) allCookies of
        Inl e \<Rightarrow> Inl e
      | Inr (cs, all1) \<Rightarrow>
          (case decodePageList oor rest all1 of
             Inl e \<Rightarrow> Inl e
           | Inr (rest', all2) \<Rightarrow> Inr (pg\<lparr>cookies := cs\<rparr> # rest', all2)))"

definition decodeCookies ::
  "(nat \<Rightarrow> int) \<Rightarrow> pages \<Rightarrow> cookie list \<Rightarrow> failure + (pages \<times> cookie list)" where
  "decodeCookies oor ps allCookies =
     bindE (decodePageList oor (pages ps) allCookies) (\<lambda>(pgs, all').
       Inr (ps\<lparr>pages := pgs\<rparr>, all'))"

subsection \<open>main, from the file's bytes to the decoded cookies\<close>

text \<open>
  \<^verbatim>\<open>main\<close> reads the file, calls \<^verbatim>\<open>checkFileMagicNumber\<close>, \<^verbatim>\<open>extractPages\<close>,
  \<^verbatim>\<open>extractCookiesFromPages\<close> and \<^verbatim>\<open>decodeCookies\<close> in this order and prints \<^verbatim>\<open>allCookies\<close>.
  The model starts at the bytes read and ends at \<^verbatim>\<open>allCookies\<close>.
\<close>

definition mainCookies :: "(nat \<Rightarrow> int) \<Rightarrow> bslice \<Rightarrow> failure + cookie list" where
  "mainCookies oor data =
     bindE (checkFileMagicNumber data) (\<lambda>_.
     bindE (extractPages data) (\<lambda>ps.
     bindE (extractCookiesFromPages ps) (\<lambda>ps'.
     bindE (decodeCookies oor ps' []) (\<lambda>(ps'', allCookies).
       Inr allCookies))))"

section \<open>Sample inputs\<close>

text \<open>
  A record of 64 bytes: size 64, flags 5, the domain \<^verbatim>\<open>c\<close> at offset 56, the name \<^verbatim>\<open>a\<close> at
  58, the path \<^verbatim>\<open>/\<close> at 60, the value \<^verbatim>\<open>b\<close> at 62, both timestamps the double 0.0.
\<close>

definition sampleRecord :: "byte list" where
  "sampleRecord =
     [64, 0, 0, 0,  0, 0, 0, 0,  5, 0, 0, 0,  0, 0, 0, 0,
      56, 0, 0, 0,  58, 0, 0, 0,  60, 0, 0, 0,  62, 0, 0, 0,
      0, 0, 0, 0, 0, 0, 0, 0,
      0, 0, 0, 0, 0, 0, 0, 0,
      0, 0, 0, 0, 0, 0, 0, 0,
      0x63, 0,  0x61, 0,  0x2f, 0,  0x62, 0]"

definition sampleCookie :: cookie where
  "sampleCookie = zeroCookie\<lparr>rawBytes := \<lparr>elems = sampleRecord, spare = []\<rparr>\<rparr>"

text \<open>The same record with the name offset 200, beyond its 64 bytes.\<close>

definition badOffsetRecord :: "byte list" where
  "badOffsetRecord =
     [64, 0, 0, 0,  0, 0, 0, 0,  5, 0, 0, 0,  0, 0, 0, 0,
      56, 0, 0, 0,  200, 0, 0, 0,  60, 0, 0, 0,  62, 0, 0, 0,
      0, 0, 0, 0, 0, 0, 0, 0,
      0, 0, 0, 0, 0, 0, 0, 0,
      0, 0, 0, 0, 0, 0, 0, 0,
      0x63, 0,  0x61, 0,  0x2f, 0,  0x62, 0]"

definition badOffsetCookie :: cookie where
  "badOffsetCookie = zeroCookie\<lparr>rawBytes := \<lparr>elems = badOffsetRecord, spare = []\<rparr>\<rparr>"

text \<open>
  A record of 64 bytes whose value, at offset 62, is the two bytes \<^verbatim>\<open>bc\<close> with no zero byte
  after them; in the buffer the record is followed by the bytes \<^verbatim>\<open>zz\<close> and a zero byte.
\<close>

definition unterminatedRecord :: "byte list" where
  "unterminatedRecord =
     [64, 0, 0, 0,  0, 0, 0, 0,  0, 0, 0, 0,  0, 0, 0, 0,
      56, 0, 0, 0,  58, 0, 0, 0,  60, 0, 0, 0,  62, 0, 0, 0,
      0, 0, 0, 0, 0, 0, 0, 0,
      0, 0, 0, 0, 0, 0, 0, 0,
      0, 0, 0, 0, 0, 0, 0, 0,
      0x63, 0,  0x61, 0,  0x2f, 0,  0x62, 0x63]"

definition unterminatedCookie :: cookie where
  "unterminatedCookie =
     zeroCookie\<lparr>rawBytes := \<lparr>elems = unterminatedRecord, spare = [0x7a, 0x7a, 0]\<rparr>\<rparr>"

text \<open>A page with that one record, and the file with that one page.\<close>

definition samplePage :: "byte list" where
  "samplePage = [0, 0, 1, 0,  1, 0, 0, 0,  16, 0, 0, 0,  0, 0, 0, 0] @ sampleRecord"

definition sampleFile :: "byte list" where
  "sampleFile = [0x63, 0x6f, 0x6f, 0x6b,  0, 0, 0, 1,  0, 0, 0, 80] @ samplePage"

definition sampleData :: bslice where
  "sampleData = \<lparr>elems = sampleFile, spare = []\<rparr>"

text \<open>
  A file of three pages with the sizes 2, 3 and 1 and the payload bytes 10 to 15, and the
  same file with the sizes 3, 2 and 1.
\<close>

definition threePageFile :: "byte list" where
  "threePageFile =
     [0x63, 0x6f, 0x6f, 0x6b,  0, 0, 0, 3,  0, 0, 0, 2,  0, 0, 0, 3,  0, 0, 0, 1,
      10, 11, 12, 13, 14, 15]"

definition threePageFile' :: "byte list" where
  "threePageFile' =
     [0x63, 0x6f, 0x6f, 0x6b,  0, 0, 0, 3,  0, 0, 0, 3,  0, 0, 0, 2,  0, 0, 0, 1,
      10, 11, 12, 13, 14, 15]"

text \<open>
  A page that holds ten copies of the sample record, at the offsets 52, 116, ..., 628,
  and the file with that one page of 692 bytes.
\<close>

definition tenCookiePage :: "byte list" where
  "tenCookiePage =
     [0, 0, 1, 0,  10, 0, 0, 0,
      52, 0, 0, 0,  116, 0, 0, 0,  180, 0, 0, 0,  244, 0, 0, 0,  52, 1, 0, 0,
      116, 1, 0, 0,  180, 1, 0, 0,  244, 1, 0, 0,  52, 2, 0, 0,  116, 2, 0, 0,
      0, 0, 0, 0]
     @ concat (replicate 10 sampleRecord)"

definition tenCookieFile :: "byte list" where
  "tenCookieFile = [0x63, 0x6f, 0x6f, 0x6b,  0, 0, 0, 1,  0, 0, 2, 0xb4] @ tenCookiePage"

text \<open>A buffer of four bytes, the text \<^verbatim>\<open>cook\<close>, and a buffer with another magic number.\<close>

definition cookOnly :: bslice where
  "cookOnly = \<lparr>elems = [0x63, 0x6f, 0x6f, 0x6b], spare = []\<rparr>"

definition wrongMagic :: bslice where
  "wrongMagic =
     \<lparr>elems = [0x78, 0x78, 0x78, 0x78,  0, 0, 0, 1,  0, 0, 0, 80] @ samplePage, spare = []\<rparr>"

section \<open>Record spans\<close>

text \<open>
  The records an offset table cuts out of a page, in the order of the table: a record
  runs from its offset to the next offset, the last record from its offset to the end of
  the page. A span that is not the last is taken from the backing array, as the slice
  expression of the program takes it.
\<close>

fun recordSpans :: "bslice \<Rightarrow> nat list \<Rightarrow> byte list list" where
  "recordSpans rb [] = []"
| "recordSpans rb [off] = [drop off (elems rb)]"
| "recordSpans rb (off # off' # rest) =
     take (off' - off) (drop off (mem rb)) # recordSpans rb (off' # rest)"

section \<open>A file of two pages\<close>

text \<open>
  Two more records, shaped as the sample record: one with the name \<^verbatim>\<open>x\<close>, the value \<^verbatim>\<open>y\<close>
  and the flags 1, one with the name \<^verbatim>\<open>n\<close>, the value \<^verbatim>\<open>v\<close> and the flags 4.
\<close>

definition recordX :: "byte list" where
  "recordX =
     [64, 0, 0, 0,  0, 0, 0, 0,  1, 0, 0, 0,  0, 0, 0, 0,
      56, 0, 0, 0,  58, 0, 0, 0,  60, 0, 0, 0,  62, 0, 0, 0,
      0, 0, 0, 0, 0, 0, 0, 0,
      0, 0, 0, 0, 0, 0, 0, 0,
      0, 0, 0, 0, 0, 0, 0, 0,
      0x63, 0,  0x78, 0,  0x2f, 0,  0x79, 0]"

definition recordN :: "byte list" where
  "recordN =
     [64, 0, 0, 0,  0, 0, 0, 0,  4, 0, 0, 0,  0, 0, 0, 0,
      56, 0, 0, 0,  58, 0, 0, 0,  60, 0, 0, 0,  62, 0, 0, 0,
      0, 0, 0, 0, 0, 0, 0, 0,
      0, 0, 0, 0, 0, 0, 0, 0,
      0, 0, 0, 0, 0, 0, 0, 0,
      0x63, 0,  0x6e, 0,  0x2f, 0,  0x76, 0]"

text \<open>
  The first page holds the sample record at offset 20 and \<open>recordX\<close> at offset 84, the
  second page holds \<open>recordN\<close> at offset 16; the file has the page sizes 148 and 80.
\<close>

definition pageA :: "byte list" where
  "pageA = [0, 0, 1, 0,  2, 0, 0, 0,  20, 0, 0, 0,  84, 0, 0, 0,  0, 0, 0, 0]
     @ sampleRecord @ recordX"

definition pageB :: "byte list" where
  "pageB = [0, 0, 1, 0,  1, 0, 0, 0,  16, 0, 0, 0,  0, 0, 0, 0] @ recordN"

definition twoPageFile :: "byte list" where
  "twoPageFile =
     [0x63, 0x6f, 0x6f, 0x6b,  0, 0, 0, 2,  0, 0, 0, 148,  0, 0, 0, 80] @ pageA @ pageB"

definition twoPageData :: bslice where
  "twoPageData = \<lparr>elems = twoPageFile, spare = []\<rparr>"

text \<open>
  The three raw cookies the file is cut into, each a window into the file's buffer, and
  the three cookies they decode to.
\<close>

definition rawA1 :: cookie where
  "rawA1 = zeroCookie\<lparr>rawBytes := \<lparr>elems = sampleRecord, spare = recordX @ pageB\<rparr>\<rparr>"

definition rawA2 :: cookie where
  "rawA2 = zeroCookie\<lparr>rawBytes := \<lparr>elems = recordX, spare = pageB\<rparr>\<rparr>"

definition rawB1 :: cookie where
  "rawB1 = zeroCookie\<lparr>rawBytes := \<lparr>elems = recordN, spare = []\<rparr>\<rparr>"

definition decodedA1 :: cookie where
  "decodedA1 =
     rawA1\<lparr>Size := 64, Name := [0x61], Value := [0x62], Domain' := [0x63], Path := [0x2f],
       Flags := ''Secure; HttpOnly'', Expires := Some 978307200,
       LastAccessed := Some 978307200\<rparr>"

definition decodedA2 :: cookie where
  "decodedA2 =
     rawA2\<lparr>Size := 64, Name := [0x78], Value := [0x79], Domain' := [0x63], Path := [0x2f],
       Flags := ''Secure'', Expires := Some 978307200, LastAccessed := Some 978307200\<rparr>"

definition decodedB1 :: cookie where
  "decodedB1 =
     rawB1\<lparr>Size := 64, Name := [0x6e], Value := [0x76], Domain' := [0x63], Path := [0x2f],
       Flags := ''HttpOnly'', Expires := Some 978307200, LastAccessed := Some 978307200\<rparr>"

section \<open>The byte-order helper\<close>

lemma reverseLoop_rev:
  "i < int (length data) \<Longrightarrow> reverseLoop data i result = result @ rev (take (nat (i + 1)) data)"
proof (induction data i result rule: reverseLoop.induct)
  case (1 data i result)
  show ?case
  proof (cases "i \<ge> 0")
    case True
    then have n: "nat (i + 1) = Suc (nat i)" and lt: "nat i < length data"
      using "1.prems" by auto
    have "reverseLoop data i result = reverseLoop data (i - 1) (result @ [data ! nat i])"
      using True by (subst reverseLoop.simps) simp
    also have "\<dots> = (result @ [data ! nat i]) @ rev (take (nat (i - 1 + 1)) data)"
      using "1.IH" [OF True] "1.prems" by simp
    also have "\<dots> = result @ rev (take (Suc (nat i)) data)"
      using lt by (simp add: take_Suc_conv_app_nth)
    finally show ?thesis using n by simp
  next
    case False
    then show ?thesis by (subst reverseLoop.simps) simp
  qed
qed

lemma reverseByteSlice_rev: "reverseByteSlice data = rev data"
  by (simp add: reverseByteSlice_def reverseLoop_rev)

section \<open>Hex encoding followed by parsing\<close>

lemma digitVal_hextable: "k < 16 \<Longrightarrow> digitVal (hextable ! k) = Some k"
proof -
  assume "k < 16"
  then have "k = 0 \<or> k = 1 \<or> k = 2 \<or> k = 3 \<or> k = 4 \<or> k = 5 \<or> k = 6 \<or> k = 7 \<or> k = 8
    \<or> k = 9 \<or> k = 10 \<or> k = 11 \<or> k = 12 \<or> k = 13 \<or> k = 14 \<or> k = 15"
    by arith
  then show ?thesis
    by (elim disjE) (simp_all add: digitVal_def hextable_def lower_def)
qed

lemma hi_nibble: "unat (drop_bit 4 (v :: byte)) = unat v div 16"
  by (simp add: unat_drop_bit_eq drop_bit_eq_div unat_div)

lemma lo_nibble: "unat ((v :: byte) AND 15) = unat v mod 16"
proof -
  have "v AND 15 = take_bit 4 v"
    by (simp add: take_bit_eq_mask mask_eq_exp_minus_1)
  then have "v AND 15 = v mod 16"
    by (simp add: take_bit_eq_mod)
  then show ?thesis
    by (simp add: unat_mod)
qed

lemma be_val_bound: "be_val bs < 256 ^ length bs"
proof (induction bs)
  case Nil
  show ?case by simp
next
  case (Cons b bs)
  let ?X = "(256::nat) ^ length bs"
  have "unat b < 256" using unsigned_less [of b] by simp
  then have "unat b \<le> 255" by simp
  then have "unat b * ?X \<le> 255 * ?X"
    by (rule mult_le_mono1)
  then have "unat b * ?X + be_val bs < 255 * ?X + ?X"
    using Cons.IH by (rule add_le_less_mono)
  then show ?case by simp
qed

lemma parseDigits_step:
  "d < 16 \<Longrightarrow> m < 2 ^ 60 \<Longrightarrow>
   parseDigits 16 m (hextable ! d # cs) = parseDigits 16 (m * 16 + d) cs"
  by (simp add: digitVal_hextable maxUint64_def)

text \<open>Two hex digits a byte, parsed in base 16 from an accumulator \<open>n\<close>, while 64 bits suffice.\<close>

lemma parseDigits_hex:
  "n * 256 ^ length bs + be_val bs < 2 ^ 64 \<Longrightarrow>
   parseDigits 16 n (EncodeToString bs) = (n * 256 ^ length bs + be_val bs, None)"
proof (induction bs arbitrary: n)
  case Nil
  show ?case by simp
next
  case (Cons b bs)
  let ?X = "(256::nat) ^ length bs"
  let ?v = "unat b"
  let ?d1 = "?v div 16"
  let ?d2 = "?v mod 16"
  have v: "?v < 256" using unsigned_less [of b] by simp
  have d1: "?d1 < 16" using v by simp
  have d2: "?d2 < 16" by simp
  have tot: "(n * 256 + ?v) * ?X + be_val bs < 2 ^ 64"
    using Cons.prems by (simp add: algebra_simps)
  have "n * 256 + ?v \<le> (n * 256 + ?v) * ?X"
    by simp
  then have small: "n * 256 + ?v < 2 ^ 64" using tot by linarith
  have n1: "n < 2 ^ 60" using small by simp
  have split: "(n * 16 + ?d1) * 16 + ?d2 = n * 256 + ?v" by simp
  have n2: "n * 16 + ?d1 < 2 ^ 60" using small split by simp
  have "parseDigits 16 n (EncodeToString (b # bs)) =
      parseDigits 16 (n * 16 + ?d1) (hextable ! ?d2 # EncodeToString bs)"
    using parseDigits_step [OF d1 n1] by (simp add: hi_nibble lo_nibble)
  also have "\<dots> = parseDigits 16 ((n * 16 + ?d1) * 16 + ?d2) (EncodeToString bs)"
    using d2 n2 by (rule parseDigits_step)
  also have "\<dots> = parseDigits 16 (n * 256 + ?v) (EncodeToString bs)"
    by (simp only: split)
  also have "\<dots> = ((n * 256 + ?v) * ?X + be_val bs, None)"
    using tot by (rule Cons.IH)
  finally show ?case
    by (simp add: algebra_simps)
qed

lemma convertHexToUint_be:
  "length bs \<le> 8 \<Longrightarrow> convertHexToUint bs = be_val bs"
proof (cases bs)
  case Nil
  then show ?thesis by (simp add: convertHexToUint_def ParseUint_def)
next
  case (Cons b bs')
  assume "length bs \<le> 8"
  then have "(256::nat) ^ length bs \<le> 256 ^ 8" by (rule power_increasing) simp
  then have "be_val bs < 2 ^ 64" using be_val_bound [of bs] by simp
  then have "parseDigits 16 0 (EncodeToString bs) = (be_val bs, None)"
    using parseDigits_hex [of 0 bs] by simp
  then show ?thesis using Cons by (simp add: convertHexToUint_def ParseUint_def)
qed

text \<open>
  C10. \<^verbatim>\<open>reverseByteSlice\<close> keeps the length of its argument, and reversing twice gives
  the argument back.
\<close>

theorem reverseByteSlice_involution:
  "length (reverseByteSlice s) = length s \<and> reverseByteSlice (reverseByteSlice s) = s"
  by (simp add: reverseByteSlice_rev)

section \<open>Scanning, byte order and slices\<close>

lemma scanLoop_takeWhile:
  "i \<le> length data \<Longrightarrow> scanLoop data i result = result @ takeWhile (\<lambda>b. b \<noteq> 0) (drop i data)"
proof (induction data i result rule: scanLoop.induct)
  case (1 data i result)
  show ?case
  proof (cases "i < length data")
    case True
    then have d: "drop i data = data ! i # drop (Suc i) data"
      by (simp add: Cons_nth_drop_Suc)
    show ?thesis
    proof (cases "data ! i = 0")
      case z: True
      then show ?thesis using True d by (subst scanLoop.simps) simp
    next
      case nz: False
      have "scanLoop data i result = scanLoop data (i + 1) (result @ [data ! i])"
        using True nz by (subst scanLoop.simps) simp
      also have "\<dots> = (result @ [data ! i]) @ takeWhile (\<lambda>b. b \<noteq> 0) (drop (i + 1) data)"
        using True nz by (intro "1.IH") simp_all
      finally show ?thesis using d nz by simp
    qed
  next
    case False
    then show ?thesis using "1.prems" by (subst scanLoop.simps) simp
  qed
qed

lemma scanUntilNullByte_takeWhile:
  "scanUntilNullByte data = takeWhile (\<lambda>b. b \<noteq> 0) data"
  by (simp add: scanUntilNullByte_def scanLoop_takeWhile)

lemma be_val_append: "be_val (xs @ ys) = be_val xs * 256 ^ length ys + be_val ys"
  by (induction xs) (simp_all add: algebra_simps power_add)

lemma be_val_rev: "be_val (rev bs) = le_val bs"
  by (induction bs) (simp_all add: be_val_append)

lemma convertHexToUint_le:
  "length bs \<le> 8 \<Longrightarrow> convertHexToUint (reverseByteSlice bs) = le_val bs"
  by (simp add: reverseByteSlice_rev convertHexToUint_be be_val_rev)

lemma le_val_bound: "le_val bs < 256 ^ length bs"
  using be_val_bound [of "rev bs"] by (simp add: be_val_rev)

section \<open>Decoding one record\<close>

text \<open>Slice expressions with natural-number bounds, and the fields they cut out.\<close>

lemma sliceLoHi_nat:
  "lo \<le> hi \<Longrightarrow> hi \<le> scap s \<Longrightarrow>
   sliceLoHi s (int lo) (int hi) =
     Inr \<lparr>elems = take (hi - lo) (drop lo (mem s)), spare = drop hi (mem s)\<rparr>"
  by (simp add: sliceLoHi_def)

lemma sliceLoHi_nat_Panic:
  "scap s < hi \<Longrightarrow> sliceLoHi s lo (int hi) = Inl Panic"
  by (simp add: sliceLoHi_def)

lemma sliceFrom_nat:
  "sliceFrom s (int lo) =
     (if lo \<le> slen s then Inr \<lparr>elems = drop lo (elems s), spare = spare s\<rparr> else Inl Panic)"
  by (simp add: sliceFrom_def)

lemma field_value:
  "convertHexToUint (reverseByteSlice (take 4 (drop k (mem s)))) = fieldLE s k"
  by (simp add: fieldLE_def convertHexToUint_le)

lemma field_value0:
  "convertHexToUint (reverseByteSlice (take 4 (mem s))) = fieldLE s 0"
  using field_value [of 0 s] by simp

lemma fieldLE_bound: "fieldLE s k < 2 ^ 32"
proof -
  have "fieldLE s k < 256 ^ length (take 4 (drop k (mem s)))"
    unfolding fieldLE_def by (rule le_val_bound)
  also have "\<dots> \<le> (256::nat) ^ 4"
    by (rule power_increasing) simp_all
  finally show ?thesis by simp
qed

lemma goInt_field: "goInt (fieldLE s k) = int (fieldLE s k)"
  using fieldLE_bound [of s k] by (simp add: goInt_def)

lemma uint64OfInt_field: "uint64OfInt (int (fieldLE s k)) = fieldLE s k"
  using fieldLE_bound [of s k] by (simp add: uint64OfInt_def)

lemma decodeCookie_fixed:
  assumes "56 \<le> scap (rawBytes ck)"
  shows "decodeCookie oor ck =
    bindE (sliceFrom (rawBytes ck) (int (fieldLE (rawBytes ck) 20))) (\<lambda>ns.
    bindE (sliceFrom (rawBytes ck) (int (fieldLE (rawBytes ck) 28))) (\<lambda>vs.
    bindE (sliceFrom (rawBytes ck) (int (fieldLE (rawBytes ck) 16))) (\<lambda>ds.
    bindE (sliceFrom (rawBytes ck) (int (fieldLE (rawBytes ck) 24))) (\<lambda>pths.
      Inr (ck\<lparr>Size := fieldLE (rawBytes ck) 0,
              Name := scanUntilNullByte (elems ns),
              Value := scanUntilNullByte (elems vs),
              Domain' := scanUntilNullByte (elems ds),
              Path := scanUntilNullByte (elems pths),
              Flags := flagText (int (fieldLE (rawBytes ck) 8)),
              Expires := Some (convertHexToCoreDataTime oor (take 8 (drop 40 (mem (rawBytes ck))))),
              LastAccessed :=
                Some (convertHexToCoreDataTime oor (take 8 (drop 48 (mem (rawBytes ck)))))\<rparr>)))))"
proof -
  let ?rb = "rawBytes ck"
  have s0: "sliceLoHi ?rb 0 4 = Inr \<lparr>elems = take 4 (drop 0 (mem ?rb)), spare = drop 4 (mem ?rb)\<rparr>"
    using assms sliceLoHi_nat [of 0 4 ?rb] by simp
  have s8: "sliceLoHi ?rb 8 12 = Inr \<lparr>elems = take 4 (drop 8 (mem ?rb)), spare = drop 12 (mem ?rb)\<rparr>"
    using assms sliceLoHi_nat [of 8 12 ?rb] by simp
  have s16: "sliceLoHi ?rb 16 20 = Inr \<lparr>elems = take 4 (drop 16 (mem ?rb)), spare = drop 20 (mem ?rb)\<rparr>"
    using assms sliceLoHi_nat [of 16 20 ?rb] by simp
  have s20: "sliceLoHi ?rb 20 24 = Inr \<lparr>elems = take 4 (drop 20 (mem ?rb)), spare = drop 24 (mem ?rb)\<rparr>"
    using assms sliceLoHi_nat [of 20 24 ?rb] by simp
  have s24: "sliceLoHi ?rb 24 28 = Inr \<lparr>elems = take 4 (drop 24 (mem ?rb)), spare = drop 28 (mem ?rb)\<rparr>"
    using assms sliceLoHi_nat [of 24 28 ?rb] by simp
  have s28: "sliceLoHi ?rb 28 32 = Inr \<lparr>elems = take 4 (drop 28 (mem ?rb)), spare = drop 32 (mem ?rb)\<rparr>"
    using assms sliceLoHi_nat [of 28 32 ?rb] by simp
  have s40: "sliceLoHi ?rb 40 48 = Inr \<lparr>elems = take 8 (drop 40 (mem ?rb)), spare = drop 48 (mem ?rb)\<rparr>"
    using assms sliceLoHi_nat [of 40 48 ?rb] by simp
  have s48: "sliceLoHi ?rb 48 56 = Inr \<lparr>elems = take 8 (drop 48 (mem ?rb)), spare = drop 56 (mem ?rb)\<rparr>"
    using assms sliceLoHi_nat [of 48 56 ?rb] by simp
  show ?thesis
    unfolding decodeCookie_def Let_def s0 s8 s16 s20 s24 s28 s40 s48
    by (simp add: bindE_def field_value field_value0 goInt_field uint64OfInt_field split: sum.splits)
qed

lemma bindE_eq_Inr: "(bindE m f = Inr y) = (\<exists>x. m = Inr x \<and> f x = Inr y)"
  by (cases m) (simp_all add: bindE_def)

lemma bindE_eq_Inl: "(bindE m f = Inl e) = (m = Inl e \<or> (\<exists>x. m = Inr x \<and> f x = Inl e))"
  by (cases m) (simp_all add: bindE_def)

lemma sliceLoHi_Inl: "(sliceLoHi s lo hi = Inl e) = (e = Panic \<and> \<not> (0 \<le> lo \<and> lo \<le> hi \<and> hi \<le> int (scap s)))"
  by (auto simp add: sliceLoHi_def)

lemma sliceFrom_Inl: "(sliceFrom s lo = Inl e) = (e = Panic \<and> \<not> (0 \<le> lo \<and> lo \<le> int (slen s)))"
  by (auto simp add: sliceFrom_def)

lemma decodeCookie_Inl: "decodeCookie oor ck = Inl e \<Longrightarrow> e = Panic"
  unfolding decodeCookie_def Let_def
  by (simp add: bindE_eq_Inl sliceLoHi_Inl sliceFrom_Inl) blast

lemma decodeCookie_Inr_cap: "decodeCookie oor ck = Inr ck' \<Longrightarrow> 56 \<le> scap (rawBytes ck)"
  unfolding decodeCookie_def Let_def
  by (simp add: bindE_eq_Inr) (auto simp add: sliceLoHi_def split: if_splits)

lemma decodeCookie_short:
  assumes "scap (rawBytes ck) < 56"
  shows "decodeCookie oor ck = Inl Panic"
proof (cases "decodeCookie oor ck")
  case (Inl e)
  then show ?thesis using decodeCookie_Inl [of oor ck e] by simp
next
  case (Inr ck')
  then show ?thesis using decodeCookie_Inr_cap [of oor ck ck'] assms by simp
qed

lemma decodeCookie_result:
  "decodeCookie oor ck =
     (if 56 \<le> scap (rawBytes ck)
         \<and> fieldLE (rawBytes ck) 20 \<le> slen (rawBytes ck)
         \<and> fieldLE (rawBytes ck) 28 \<le> slen (rawBytes ck)
         \<and> fieldLE (rawBytes ck) 16 \<le> slen (rawBytes ck)
         \<and> fieldLE (rawBytes ck) 24 \<le> slen (rawBytes ck)
      then Inr (ck\<lparr>Size := fieldLE (rawBytes ck) 0,
              Name := textAt (rawBytes ck) (fieldLE (rawBytes ck) 20),
              Value := textAt (rawBytes ck) (fieldLE (rawBytes ck) 28),
              Domain' := textAt (rawBytes ck) (fieldLE (rawBytes ck) 16),
              Path := textAt (rawBytes ck) (fieldLE (rawBytes ck) 24),
              Flags := flagText (int (fieldLE (rawBytes ck) 8)),
              Expires := Some (convertHexToCoreDataTime oor (take 8 (drop 40 (mem (rawBytes ck))))),
              LastAccessed :=
                Some (convertHexToCoreDataTime oor (take 8 (drop 48 (mem (rawBytes ck)))))\<rparr>)
      else Inl Panic)"
proof (cases "56 \<le> scap (rawBytes ck)")
  case True
  then show ?thesis
    by (simp add: decodeCookie_fixed sliceFrom_nat bindE_def textAt_def
        scanUntilNullByte_takeWhile)
next
  case False
  then show ?thesis
    by (simp add: decodeCookie_short)
qed

section \<open>The time conversion\<close>

lemma convertHexToCoreDataTime_le:
  "length bs \<le> 8 \<Longrightarrow>
   convertHexToCoreDataTime oor bs = wrap64 (float64ToInt64 oor (le_val bs) + 978307200)"
proof -
  assume len: "length bs \<le> 8"
  then have "(256::nat) ^ length bs \<le> 256 ^ 8" by (rule power_increasing) simp
  then have small: "be_val (rev bs) < 2 ^ 64" using be_val_bound [of "rev bs"] by simp
  have "ParseUint (EncodeToString (rev bs)) 16 = (le_val bs, if bs = [] then Some ErrSyntax else None)"
  proof (cases "bs = []")
    case True
    then show ?thesis by (simp add: ParseUint_def)
  next
    case False
    then have "EncodeToString (rev bs) \<noteq> []"
      by (cases "rev bs") simp_all
    then show ?thesis
      using small parseDigits_hex [of 0 "rev bs"] False
      by (simp add: ParseUint_def be_val_rev)
  qed
  then show ?thesis
    by (simp add: convertHexToCoreDataTime_def reverseByteSlice_rev)
qed

lemma float64ToInt64_zero: "float64ToInt64 oor 0 = 0"
  by (simp add: float64ToInt64_def float64Value_def truncQ_def)

lemma convertHexToCoreDataTime_zero:
  "convertHexToCoreDataTime oor [0, 0, 0, 0, 0, 0, 0, 0] = 978307200"
  by (simp add: convertHexToCoreDataTime_le float64ToInt64_zero wrap64_def)

lemma wrap64_id: "- (2 ^ 63) \<le> i \<Longrightarrow> i < 2 ^ 63 \<Longrightarrow> wrap64 i = i"
  by (simp add: wrap64_def)

lemma float64ToInt64_cases:
  "float64ToInt64 oor b =
     (case float64Value b of
        None \<Rightarrow> wrap64 (oor b)
      | Some q \<Rightarrow>
          if - (2 ^ 63) \<le> truncQ q \<and> truncQ q < 2 ^ 63 then truncQ q else wrap64 (oor b))"
  by (simp add: float64ToInt64_def)

text \<open>
  C4, as the code has it. \<^verbatim>\<open>convertHexToCoreDataTime\<close> reads its eight bytes as the
  little-endian bit pattern of a double. When the double is finite, \<open>q\<close>, and its
  truncation towards zero fits an \<^verbatim>\<open>int64\<close>, the result is the truncation plus 978307200
  in \<^verbatim>\<open>int64\<close> arithmetic, which wraps around: it is exactly \<open>truncQ q + 978307200\<close> when
  that sum is below \<open>2\<^sup>6\<^sup>3\<close>. For a NaN, an infinity and a double whose truncation does not
  fit, the platform's conversion result takes the place of the truncation. The eight zero
  bytes, the double 0.0, give exactly 978307200.
\<close>

theorem convertHexToCoreDataTime_epoch:
  "(length bs = 8 \<and> float64Value (le_val bs) = Some q
      \<and> - (2 ^ 63) \<le> truncQ q \<and> truncQ q < 2 ^ 63
    \<longrightarrow> convertHexToCoreDataTime oor bs = wrap64 (truncQ q + 978307200))
   \<and> (length bs = 8 \<and> float64Value (le_val bs) = Some q
      \<and> - (2 ^ 63) \<le> truncQ q \<and> truncQ q + 978307200 < 2 ^ 63
    \<longrightarrow> convertHexToCoreDataTime oor bs = truncQ q + 978307200)
   \<and> (length bs = 8
      \<and> (float64Value (le_val bs) = None
          \<or> (\<exists>r. float64Value (le_val bs) = Some r
                \<and> \<not> (- (2 ^ 63) \<le> truncQ r \<and> truncQ r < 2 ^ 63)))
    \<longrightarrow> convertHexToCoreDataTime oor bs = wrap64 (wrap64 (oor (le_val bs)) + 978307200))
   \<and> convertHexToCoreDataTime oor [0, 0, 0, 0, 0, 0, 0, 0] = 978307200"
proof (intro conjI impI)
  assume h: "length bs = 8 \<and> float64Value (le_val bs) = Some q
      \<and> - (2 ^ 63) \<le> truncQ q \<and> truncQ q < 2 ^ 63"
  then have "float64ToInt64 oor (le_val bs) = truncQ q"
    by (simp add: float64ToInt64_cases)
  then show "convertHexToCoreDataTime oor bs = wrap64 (truncQ q + 978307200)"
    using h by (simp add: convertHexToCoreDataTime_le)
next
  assume h: "length bs = 8 \<and> float64Value (le_val bs) = Some q
      \<and> - (2 ^ 63) \<le> truncQ q \<and> truncQ q + 978307200 < 2 ^ 63"
  then have "float64ToInt64 oor (le_val bs) = truncQ q"
    by (simp add: float64ToInt64_cases)
  moreover have "wrap64 (truncQ q + 978307200) = truncQ q + 978307200"
    using h by (intro wrap64_id) simp_all
  ultimately show "convertHexToCoreDataTime oor bs = truncQ q + 978307200"
    using h by (simp add: convertHexToCoreDataTime_le)
next
  assume h: "length bs = 8
      \<and> (float64Value (le_val bs) = None
          \<or> (\<exists>r. float64Value (le_val bs) = Some r
                \<and> \<not> (- (2 ^ 63) \<le> truncQ r \<and> truncQ r < 2 ^ 63)))"
  then have "float64ToInt64 oor (le_val bs) = wrap64 (oor (le_val bs))"
    by (auto simp add: float64ToInt64_cases)
  then show "convertHexToCoreDataTime oor bs = wrap64 (wrap64 (oor (le_val bs)) + 978307200)"
    using h by (simp add: convertHexToCoreDataTime_le)
next
  show "convertHexToCoreDataTime oor [0, 0, 0, 0, 0, 0, 0, 0] = 978307200"
    by (rule convertHexToCoreDataTime_zero)
qed

lemma sample_double_value: "float64Value 4738316373172682752 = Some (2400000003 / 4)"
  by (simp add: float64Value_def)

lemma sample_double_trunc: "truncQ (2400000003 / 4) = 600000000"
  by (simp add: truncQ_def)

lemma nan_double_value: "float64Value 9221120237041090560 = None"
  by (simp add: float64Value_def)

theorem convertHexToCoreDataTime_epoch_witness:
  "length [0, 0, 96, 0, 163, 225, 193, 65 :: byte] = 8
   \<and> float64Value (le_val [0, 0, 96, 0, 163, 225, 193, 65]) = Some (2400000003 / 4)
   \<and> - (2 ^ 63) \<le> truncQ (2400000003 / 4) \<and> truncQ (2400000003 / 4) + 978307200 < 2 ^ 63
   \<and> convertHexToCoreDataTime amd64Conv [0, 0, 96, 0, 163, 225, 193, 65] = 1578307200
   \<and> length [0, 0, 0, 0, 0, 0, 248, 127 :: byte] = 8
   \<and> float64Value (le_val [0, 0, 0, 0, 0, 0, 248, 127]) = None
   \<and> convertHexToCoreDataTime amd64Conv [0, 0, 0, 0, 0, 0, 248, 127] = - 9223372035876468608"
proof -
  have a: "le_val [0, 0, 96, 0, 163, 225, 193, 65] = 4738316373172682752"
    and b: "le_val [0, 0, 0, 0, 0, 0, 248, 127] = 9221120237041090560"
    by simp_all
  have "convertHexToCoreDataTime amd64Conv [0, 0, 96, 0, 163, 225, 193, 65] = 1578307200"
    using convertHexToCoreDataTime_epoch
      [of "[0, 0, 96, 0, 163, 225, 193, 65]" "2400000003 / 4" amd64Conv]
    by (simp add: sample_double_value sample_double_trunc)
  moreover have "convertHexToCoreDataTime amd64Conv [0, 0, 0, 0, 0, 0, 248, 127] =
      - 9223372035876468608"
    using convertHexToCoreDataTime_epoch [of "[0, 0, 0, 0, 0, 0, 248, 127]" 0 amd64Conv]
    by (simp add: nan_double_value amd64Conv_def wrap64_def)
  ultimately show ?thesis
    by (simp add: a b sample_double_value sample_double_trunc nan_double_value)
qed

text \<open>
  The claim as the specification states it fails where the \<^verbatim>\<open>int64\<close> addition wraps around.
  The bytes \<^verbatim>\<open>ff ff ff ff ff ff df 43\<close> are the double \<open>2\<^sup>6\<^sup>3 - 1024\<close>, which is its own
  truncation and fits an \<^verbatim>\<open>int64\<close>; the result is not that number plus 978307200 but a
  negative count of seconds.
\<close>

lemma large_double_value:
  "float64Value 4890909195324358655 = Some 9223372036854774784"
  by (simp add: float64Value_def)

lemma large_double_trunc: "truncQ 9223372036854774784 = 9223372036854774784"
  by (simp add: truncQ_def)

theorem convertHexToCoreDataTime_sum_wraps:
  "float64Value (le_val [255, 255, 255, 255, 255, 255, 223, 67]) = Some 9223372036854774784
   \<and> truncQ 9223372036854774784 = 9223372036854774784
   \<and> convertHexToCoreDataTime amd64Conv [255, 255, 255, 255, 255, 255, 223, 67] =
       - 9223372035876469632
   \<and> convertHexToCoreDataTime amd64Conv [255, 255, 255, 255, 255, 255, 223, 67] \<noteq>
       truncQ 9223372036854774784 + 978307200"
proof -
  have v: "le_val [255, 255, 255, 255, 255, 255, 223, 67] = 4890909195324358655"
    by simp
  have "float64ToInt64 amd64Conv 4890909195324358655 = 9223372036854774784"
    by (simp add: float64ToInt64_cases large_double_value large_double_trunc)
  then have "convertHexToCoreDataTime amd64Conv [255, 255, 255, 255, 255, 255, 223, 67] =
      - 9223372035876469632"
    by (simp add: convertHexToCoreDataTime_le v wrap64_def)
  then show ?thesis
    by (simp add: v large_double_value large_double_trunc)
qed

section \<open>The sample record\<close>

lemma sampleRecord_fields:
  "fieldLE \<lparr>elems = sampleRecord, spare = []\<rparr> 0 = 64"
  "fieldLE \<lparr>elems = sampleRecord, spare = []\<rparr> 8 = 5"
  "fieldLE \<lparr>elems = sampleRecord, spare = []\<rparr> 16 = 56"
  "fieldLE \<lparr>elems = sampleRecord, spare = []\<rparr> 20 = 58"
  "fieldLE \<lparr>elems = sampleRecord, spare = []\<rparr> 24 = 60"
  "fieldLE \<lparr>elems = sampleRecord, spare = []\<rparr> 28 = 62"
  by (simp_all add: fieldLE_def mem_def sampleRecord_def)

lemma sampleRecord_texts:
  "textAt \<lparr>elems = sampleRecord, spare = []\<rparr> 56 = [0x63]"
  "textAt \<lparr>elems = sampleRecord, spare = []\<rparr> 58 = [0x61]"
  "textAt \<lparr>elems = sampleRecord, spare = []\<rparr> 60 = [0x2f]"
  "textAt \<lparr>elems = sampleRecord, spare = []\<rparr> 62 = [0x62]"
  by (simp_all add: textAt_def sampleRecord_def)

lemma sampleRecord_times:
  "take 8 (drop 40 (mem \<lparr>elems = sampleRecord, spare = []\<rparr>)) = [0, 0, 0, 0, 0, 0, 0, 0]"
  "take 8 (drop 48 (mem \<lparr>elems = sampleRecord, spare = []\<rparr>)) = [0, 0, 0, 0, 0, 0, 0, 0]"
  by (simp_all add: mem_def sampleRecord_def)

lemma sampleRecord_size:
  "scap \<lparr>elems = sampleRecord, spare = []\<rparr> = 64"
  "slen \<lparr>elems = sampleRecord, spare = []\<rparr> = 64"
  by (simp_all add: scap_def slen_def sampleRecord_def)

lemma decodeCookie_sample:
  "decodeCookie oor sampleCookie =
     Inr (sampleCookie\<lparr>Size := 64, Name := [0x61], Value := [0x62], Domain' := [0x63],
            Path := [0x2f], Flags := ''Secure; HttpOnly'', Expires := Some 978307200,
            LastAccessed := Some 978307200\<rparr>)"
  by (simp add: decodeCookie_result sampleCookie_def zeroCookie_def sampleRecord_fields
      sampleRecord_texts sampleRecord_times sampleRecord_size convertHexToCoreDataTime_zero
      flagText_def)

lemma decodeCookie_unterminated:
  "decodeCookie oor unterminatedCookie =
     Inr (unterminatedCookie\<lparr>Size := 64, Name := [0x61], Value := [0x62, 0x63],
            Domain' := [0x63], Path := [0x2f], Flags := ''None'', Expires := Some 978307200,
            LastAccessed := Some 978307200\<rparr>)"
proof -
  let ?rb = "\<lparr>elems = unterminatedRecord, spare = [0x7a, 0x7a, 0]\<rparr>"
  have raw: "rawBytes unterminatedCookie = ?rb"
    by (simp add: unterminatedCookie_def zeroCookie_def)
  have size: "scap ?rb = 67" "slen ?rb = 64"
    by (simp_all add: scap_def slen_def unterminatedRecord_def)
  have fields: "fieldLE ?rb 0 = 64" "fieldLE ?rb 8 = 0" "fieldLE ?rb 16 = 56"
    "fieldLE ?rb 20 = 58" "fieldLE ?rb 24 = 60" "fieldLE ?rb 28 = 62"
    by (simp_all add: fieldLE_def mem_def unterminatedRecord_def)
  have texts: "textAt ?rb 56 = [0x63]" "textAt ?rb 58 = [0x61]" "textAt ?rb 60 = [0x2f]"
    "textAt ?rb 62 = [0x62, 0x63]"
    by (simp_all add: textAt_def unterminatedRecord_def)
  have times: "take 8 (drop 40 (mem ?rb)) = [0, 0, 0, 0, 0, 0, 0, 0]"
    "take 8 (drop 48 (mem ?rb)) = [0, 0, 0, 0, 0, 0, 0, 0]"
    by (simp_all add: mem_def unterminatedRecord_def)
  show ?thesis
    by (simp add: decodeCookie_result raw size fields texts times convertHexToCoreDataTime_zero
        flagText_def)
qed

section \<open>Text fields, flags and malformed records\<close>

lemma decodeCookie_InrD:
  assumes "decodeCookie oor ck = Inr ck'"
  shows "56 \<le> scap (rawBytes ck)"
    and "fieldLE (rawBytes ck) 20 \<le> slen (rawBytes ck)"
    and "fieldLE (rawBytes ck) 28 \<le> slen (rawBytes ck)"
    and "fieldLE (rawBytes ck) 16 \<le> slen (rawBytes ck)"
    and "fieldLE (rawBytes ck) 24 \<le> slen (rawBytes ck)"
    and "ck' = ck\<lparr>Size := fieldLE (rawBytes ck) 0,
              Name := textAt (rawBytes ck) (fieldLE (rawBytes ck) 20),
              Value := textAt (rawBytes ck) (fieldLE (rawBytes ck) 28),
              Domain' := textAt (rawBytes ck) (fieldLE (rawBytes ck) 16),
              Path := textAt (rawBytes ck) (fieldLE (rawBytes ck) 24),
              Flags := flagText (int (fieldLE (rawBytes ck) 8)),
              Expires := Some (convertHexToCoreDataTime oor (take 8 (drop 40 (mem (rawBytes ck))))),
              LastAccessed :=
                Some (convertHexToCoreDataTime oor (take 8 (drop 48 (mem (rawBytes ck)))))\<rparr>"
  using assms by (simp_all add: decodeCookie_result split: if_splits)

lemma sampleCookie_raw: "rawBytes sampleCookie = \<lparr>elems = sampleRecord, spare = []\<rparr>"
  by (simp add: sampleCookie_def zeroCookie_def)

lemma textAt_no_zero: "0 \<notin> set (textAt rb off)"
  unfolding textAt_def by (auto dest: set_takeWhileD)

text \<open>
  C3. When a record decodes, each of the four texts is the run of bytes of the record
  itself (\<open>elems\<close>, without the bytes that follow the record in the buffer) that starts at
  the field's offset and stops before the first zero byte, or at the end of the record
  when no zero byte follows. No text holds a zero byte.
\<close>

theorem decodeCookie_text_fields:
  assumes "decodeCookie oor ck = Inr ck'"
  shows "Name ck' = takeWhile (\<lambda>b. b \<noteq> 0) (drop (fieldLE (rawBytes ck) 20) (elems (rawBytes ck)))
    \<and> Value ck' = takeWhile (\<lambda>b. b \<noteq> 0) (drop (fieldLE (rawBytes ck) 28) (elems (rawBytes ck)))
    \<and> Domain' ck' = takeWhile (\<lambda>b. b \<noteq> 0) (drop (fieldLE (rawBytes ck) 16) (elems (rawBytes ck)))
    \<and> Path ck' = takeWhile (\<lambda>b. b \<noteq> 0) (drop (fieldLE (rawBytes ck) 24) (elems (rawBytes ck)))
    \<and> 0 \<notin> set (Name ck') \<and> 0 \<notin> set (Value ck') \<and> 0 \<notin> set (Domain' ck') \<and> 0 \<notin> set (Path ck')"
proof -
  note eq = decodeCookie_InrD(6) [OF assms]
  have "Name ck' = textAt (rawBytes ck) (fieldLE (rawBytes ck) 20)"
    and "Value ck' = textAt (rawBytes ck) (fieldLE (rawBytes ck) 28)"
    and "Domain' ck' = textAt (rawBytes ck) (fieldLE (rawBytes ck) 16)"
    and "Path ck' = textAt (rawBytes ck) (fieldLE (rawBytes ck) 24)"
    by (simp_all add: eq)
  then show ?thesis
    using textAt_no_zero by (simp add: textAt_def [symmetric])
qed

theorem decodeCookie_text_fields_witness:
  "decodeCookie amd64Conv unterminatedCookie =
     Inr (unterminatedCookie\<lparr>Size := 64, Name := [0x61], Value := [0x62, 0x63],
            Domain' := [0x63], Path := [0x2f], Flags := ''None'', Expires := Some 978307200,
            LastAccessed := Some 978307200\<rparr>)
   \<and> takeWhile (\<lambda>b. b \<noteq> 0)
         (drop (fieldLE (rawBytes unterminatedCookie) 28) (elems (rawBytes unterminatedCookie))) =
       [0x62, 0x63]"
  (is "_ = Inr ?D \<and> ?t = _")
proof -
  have d: "decodeCookie amd64Conv unterminatedCookie = Inr ?D"
    by (rule decodeCookie_unterminated)
  have "Value ?D = ?t"
    using decodeCookie_text_fields [OF d] by blast
  then have "?t = [0x62, 0x63]"
    by simp
  then show ?thesis
    using d by blast
qed

text \<open>
  C5. When a record decodes, its flag text is decided by the little-endian value of bytes
  \<open>[8, 12)\<close>: 0 gives \<^verbatim>\<open>None\<close>, 1 \<^verbatim>\<open>Secure\<close>, 4 \<^verbatim>\<open>HttpOnly\<close>, 5 \<^verbatim>\<open>Secure; HttpOnly\<close> and every
  other value \<^verbatim>\<open>Unknown\<close>. The decoded cookie keeps the raw bytes of the record, so the raw
  flags value can still be read from it.
\<close>

theorem decodeCookie_flags:
  assumes "decodeCookie oor ck = Inr ck'"
  shows "Flags ck' =
      (if fieldLE (rawBytes ck) 8 = 0 then ''None''
       else if fieldLE (rawBytes ck) 8 = 1 then ''Secure''
       else if fieldLE (rawBytes ck) 8 = 4 then ''HttpOnly''
       else if fieldLE (rawBytes ck) 8 = 5 then ''Secure; HttpOnly''
       else ''Unknown'')
    \<and> rawBytes ck' = rawBytes ck
    \<and> fieldLE (rawBytes ck') 8 = fieldLE (rawBytes ck) 8"
  by (simp add: decodeCookie_InrD(6) [OF assms] flagText_def)

theorem decodeCookie_flags_witness:
  "decodeCookie amd64Conv sampleCookie =
     Inr (sampleCookie\<lparr>Size := 64, Name := [0x61], Value := [0x62], Domain' := [0x63],
            Path := [0x2f], Flags := ''Secure; HttpOnly'', Expires := Some 978307200,
            LastAccessed := Some 978307200\<rparr>)
   \<and> fieldLE (rawBytes sampleCookie) 8 = 5"
  using decodeCookie_flags [OF decodeCookie_sample [of amd64Conv]]
  by (simp add: decodeCookie_sample sampleCookie_raw sampleRecord_fields)

text \<open>
  C8, as the code has it. Decoding a record has two outcomes only, the decoded cookie
  and a run-time panic; there is no typed error. The cookie is returned exactly when the
  record's slice has a capacity of 56 bytes or more and each of the four text offsets is
  at most the length of the record; an offset equal to the length is accepted.
\<close>

theorem decodeCookie_outcomes:
  "decodeCookie oor ck \<noteq> Inl Exit1
   \<and> ((\<exists>ck'. decodeCookie oor ck = Inr ck') \<longleftrightarrow>
        56 \<le> scap (rawBytes ck)
        \<and> fieldLE (rawBytes ck) 20 \<le> slen (rawBytes ck)
        \<and> fieldLE (rawBytes ck) 28 \<le> slen (rawBytes ck)
        \<and> fieldLE (rawBytes ck) 16 \<le> slen (rawBytes ck)
        \<and> fieldLE (rawBytes ck) 24 \<le> slen (rawBytes ck))
   \<and> ((\<nexists>ck'. decodeCookie oor ck = Inr ck') \<longleftrightarrow> decodeCookie oor ck = Inl Panic)"
  by (simp add: decodeCookie_result)

theorem decodeCookie_outcomes_witness:
  "56 \<le> scap (rawBytes sampleCookie)
   \<and> fieldLE (rawBytes sampleCookie) 20 \<le> slen (rawBytes sampleCookie)
   \<and> fieldLE (rawBytes sampleCookie) 28 \<le> slen (rawBytes sampleCookie)
   \<and> fieldLE (rawBytes sampleCookie) 16 \<le> slen (rawBytes sampleCookie)
   \<and> fieldLE (rawBytes sampleCookie) 24 \<le> slen (rawBytes sampleCookie)
   \<and> (\<exists>ck'. decodeCookie amd64Conv sampleCookie = Inr ck')"
  using decodeCookie_outcomes [of amd64Conv sampleCookie]
  by (simp add: sampleCookie_raw sampleRecord_fields sampleRecord_size)

text \<open>
  The claim as the specification states it fails: a record of 64 bytes whose name offset
  is 200 is not answered by a typed error, the decoder panics.
\<close>

theorem decodeCookie_offset_panics:
  "fieldLE (rawBytes badOffsetCookie) 20 = 200 \<and> slen (rawBytes badOffsetCookie) = 64
   \<and> decodeCookie amd64Conv badOffsetCookie = Inl Panic"
  by (simp add: decodeCookie_result)
    (simp add: badOffsetCookie_def fieldLE_def mem_def slen_def badOffsetRecord_def)

section \<open>The header\<close>

lemma fieldBE_value:
  "convertHexToUint (take 4 (drop k (mem s))) = fieldBE s k"
  by (simp add: fieldBE_def convertHexToUint_be)

lemma fieldBE_bound: "fieldBE s k < 2 ^ 32"
proof -
  have "fieldBE s k < 256 ^ length (take 4 (drop k (mem s)))"
    unfolding fieldBE_def by (rule be_val_bound)
  also have "\<dots> \<le> (256::nat) ^ 4"
    by (rule power_increasing) simp_all
  finally show ?thesis by simp
qed

lemma upt_nat_step: "0 \<le> i \<Longrightarrow> i < n \<Longrightarrow> [nat i..<nat n] = nat i # [nat (i + 1)..<nat n]"
  by (simp add: upt_conv_Cons nat_add_distrib)

lemma parseSizeLoop_result:
  "0 \<le> i \<Longrightarrow> startOffset = 8 + 4 * i \<Longrightarrow> endOffset = 12 + 4 * i \<Longrightarrow>
   parseSizeLoop data n i startOffset endOffset result =
     (if n \<le> i \<or> 8 + 4 * n \<le> int (scap data)
      then Inr (result @ map (\<lambda>k. fieldBE data (8 + 4 * k)) [nat i..<nat n])
      else Inl Panic)"
proof (induction data n i startOffset endOffset result rule: parseSizeLoop.induct)
  case (1 data n i startOffset endOffset result)
  show ?case
  proof (cases "i < n")
    case False
    then show ?thesis by (subst parseSizeLoop.simps) simp
  next
    case True
    show ?thesis
    proof (cases "endOffset \<le> int (scap data)")
      case False
      then have "sliceLoHi data startOffset endOffset = Inl Panic"
        by (simp add: sliceLoHi_def)
      then show ?thesis
        using True False "1.prems" by (subst parseSizeLoop.simps) simp
    next
      case le: True
      let ?s = "\<lparr>elems = take 4 (drop (nat startOffset) (mem data)),
                 spare = drop (nat endOffset) (mem data)\<rparr>"
      have d: "nat endOffset - nat startOffset = 4"
        using "1.prems" by simp
      have sl: "sliceLoHi data startOffset endOffset = Inr ?s"
        using le "1.prems" d by (simp add: sliceLoHi_def)
      have so: "nat startOffset = 8 + 4 * nat i"
        using "1.prems" by (simp add: nat_add_distrib nat_mult_distrib)
      have v: "convertHexToUint (elems ?s) = fieldBE data (8 + 4 * nat i)"
        by (simp add: so fieldBE_value)
      have "parseSizeLoop data n i startOffset endOffset result =
          parseSizeLoop data n (i + 1) (startOffset + 4) (endOffset + 4)
            (result @ [convertHexToUint (elems ?s)])"
        using True sl by (subst parseSizeLoop.simps) simp
      also have "\<dots> =
          (if n \<le> i + 1 \<or> 8 + 4 * n \<le> int (scap data)
           then Inr ((result @ [convertHexToUint (elems ?s)]) @
                  map (\<lambda>k. fieldBE data (8 + 4 * k)) [nat (i + 1)..<nat n])
           else Inl Panic)"
        by (rule "1.IH" [OF True sl]) (use "1.prems" in simp_all)
      finally show ?thesis
        using True le "1.prems" upt_nat_step [of i n] v by auto
    qed
  qed
qed

lemma goInt_small: "n < 2 ^ 63 \<Longrightarrow> goInt n = int n"
  by (simp add: goInt_def)

lemma parseSizeOfPages_result:
  "pgs < 2 ^ 63 \<Longrightarrow>
   parseSizeOfPages data pgs =
     (if pgs = 0 \<or> 8 + 4 * pgs \<le> scap data
      then Inr (map (\<lambda>k. fieldBE data (8 + 4 * k)) [0..<pgs])
      else Inl Panic)"
  using parseSizeLoop_result [of 0 8 12 data "int pgs" "[]"]
  by (simp add: parseSizeOfPages_def goInt_small)

lemma extractPages_unfold:
  "extractPages data =
     (if 8 \<le> scap data
      then bindE (parseSizeOfPages data (fieldBE data 4)) (\<lambda>pageSizes.
             bindE (extractPagesLoop data (8 + 4 * fieldBE data 4) pageSizes 0 []) (\<lambda>pgs.
               Inr \<lparr>pages = pgs, numPages = fieldBE data 4, pageSizes = pageSizes,
                    headerSize = 8 + 4 * fieldBE data 4\<rparr>))
      else Inl Panic)"
proof (cases "8 \<le> scap data")
  case True
  have sl: "sliceLoHi data 4 8 =
      Inr \<lparr>elems = take 4 (drop 4 (mem data)), spare = drop 8 (mem data)\<rparr>"
    using True sliceLoHi_nat [of 4 8 data] by simp
  have "fieldBE data 4 * 4 + 8 < 2 ^ 64"
    using fieldBE_bound [of data 4] by simp
  then have hs: "u64 (fieldBE data 4 * 4 + 8) = 8 + 4 * fieldBE data 4"
    by (simp add: u64_def)
  show ?thesis
    using True
    by (simp add: extractPages_def sl bindE_def fieldBE_value hs Let_def split: sum.splits)
next
  case False
  then have "sliceLoHi data 4 8 = Inl Panic"
    using sliceLoHi_nat_Panic [of data 8 4] by simp
  then show ?thesis
    using False by (simp add: extractPages_def bindE_def Let_def)
qed


section \<open>The sample file, page by page\<close>

lemma sampleFile_header:
  "scap sampleData = 92" "slen sampleData = 92"
  "fieldBE sampleData 4 = 1" "fieldBE sampleData 8 = 80"
  by (simp_all add: sampleData_def sampleFile_def samplePage_def sampleRecord_def scap_def slen_def
      fieldBE_def mem_def)

lemma extractPages_sample:
  "extractPages sampleData =
     Inr \<lparr>pages = [zeroPage\<lparr>pageRawBytes := \<lparr>elems = samplePage, spare = []\<rparr>\<rparr>],
          numPages = 1, pageSizes = [80], headerSize = 12\<rparr>"
proof -
  have "sliceFrom sampleData 12 = Inr \<lparr>elems = samplePage, spare = []\<rparr>"
    by (simp add: sliceFrom_def sampleData_def sampleFile_def slen_def)
  then show ?thesis
    by (simp add: extractPages_unfold parseSizeOfPages_result sampleFile_header bindE_def u64_def)
qed


section \<open>Page spans\<close>

text \<open>
  C2 fails on the code for a page that is neither the first nor the last. The file has
  the page sizes 2, 3 and 1 and a header of 20 bytes, so the second page should be the
  bytes \<open>[22, 25)\<close>, which are 12, 13 and 14; \<^verbatim>\<open>extractPages\<close> ends that page at
  \<open>headerSize + pageSizes[1] = 23\<close> and returns the single byte 12. With the sizes 3, 2
  and 1 the second page would run from 23 to 22, and the slice expression panics.
\<close>

theorem extractPages_middle_page_span:
  "extractPages \<lparr>elems = threePageFile, spare = []\<rparr> =
     Inr \<lparr>pages =
            [zeroPage\<lparr>pageRawBytes := \<lparr>elems = [10, 11], spare = [12, 13, 14, 15]\<rparr>\<rparr>,
             zeroPage\<lparr>pageRawBytes := \<lparr>elems = [12], spare = [13, 14, 15]\<rparr>\<rparr>,
             zeroPage\<lparr>pageRawBytes := \<lparr>elems = [15], spare = []\<rparr>\<rparr>],
          numPages = 3, pageSizes = [2, 3, 1], headerSize = 20\<rparr>
   \<and> take 3 (drop (20 + 2) threePageFile) = [12, 13, 14]
   \<and> extractPages \<lparr>elems = threePageFile', spare = []\<rparr> = Inl Panic"
proof (intro conjI)
  let ?d = "\<lparr>elems = threePageFile, spare = []\<rparr>"
  have h: "scap ?d = 26" "fieldBE ?d 4 = 3" "fieldBE ?d 8 = 2" "fieldBE ?d 12 = 3"
    "fieldBE ?d 16 = 1"
    by (simp_all add: threePageFile_def scap_def fieldBE_def mem_def)
  have sizes: "parseSizeOfPages ?d 3 = Inr [2, 3, 1]"
    by (simp add: parseSizeOfPages_result h upt_rec)
  have "extractPagesLoop ?d 20 [2, 3, 1] 0 [] =
      Inr [zeroPage\<lparr>pageRawBytes := \<lparr>elems = [10, 11], spare = [12, 13, 14, 15]\<rparr>\<rparr>,
           zeroPage\<lparr>pageRawBytes := \<lparr>elems = [12], spare = [13, 14, 15]\<rparr>\<rparr>,
           zeroPage\<lparr>pageRawBytes := \<lparr>elems = [15], spare = []\<rparr>\<rparr>]"
    by (simp add: sliceLoHi_def sliceFrom_def u64_def scap_def slen_def mem_def threePageFile_def)
  then show "extractPages ?d =
     Inr \<lparr>pages =
            [zeroPage\<lparr>pageRawBytes := \<lparr>elems = [10, 11], spare = [12, 13, 14, 15]\<rparr>\<rparr>,
             zeroPage\<lparr>pageRawBytes := \<lparr>elems = [12], spare = [13, 14, 15]\<rparr>\<rparr>,
             zeroPage\<lparr>pageRawBytes := \<lparr>elems = [15], spare = []\<rparr>\<rparr>],
          numPages = 3, pageSizes = [2, 3, 1], headerSize = 20\<rparr>"
    by (simp add: extractPages_unfold h sizes bindE_def)
next
  show "take 3 (drop (20 + 2) threePageFile) = [12, 13, 14]"
    by (simp add: threePageFile_def)
next
  let ?d = "\<lparr>elems = threePageFile', spare = []\<rparr>"
  have h: "scap ?d = 26" "fieldBE ?d 4 = 3" "fieldBE ?d 8 = 3" "fieldBE ?d 12 = 2"
    "fieldBE ?d 16 = 1"
    by (simp_all add: threePageFile'_def scap_def fieldBE_def mem_def)
  have sizes: "parseSizeOfPages ?d 3 = Inr [3, 2, 1]"
    by (simp add: parseSizeOfPages_result h upt_rec)
  have "extractPagesLoop ?d 20 [3, 2, 1] 0 [] = Inl Panic"
    by (simp add: sliceLoHi_def sliceFrom_def u64_def scap_def slen_def mem_def threePageFile'_def)
  then show "extractPages ?d = Inl Panic"
    by (simp add: extractPages_unfold h sizes bindE_def)
qed

section \<open>The magic number\<close>

lemma checkFileMagicNumber_result:
  "4 \<le> slen data \<Longrightarrow>
   checkFileMagicNumber data = (if take 4 (elems data) \<noteq> cook then Inl Exit1 else Inr ())"
proof -
  assume len: "4 \<le> slen data"
  then have "sliceLoHi data 0 4 = Inr \<lparr>elems = take 4 (mem data), spare = drop 4 (mem data)\<rparr>"
    using sliceLoHi_nat [of 0 4 data] by (simp add: scap_def slen_def)
  moreover have "take 4 (mem data) = take 4 (elems data)"
    using len by (simp add: mem_def slen_def)
  ultimately show ?thesis
    by (simp add: checkFileMagicNumber_def bindE_def)
qed

text \<open>
  C6, as the code has it. On a buffer of four bytes or more the check ends the process
  with status 1 exactly when the first four bytes are not \<^verbatim>\<open>cook\<close>, and passes otherwise;
  it does not panic. When it ends the process nothing is parsed. The length of the buffer
  is not compared with 8.
\<close>

theorem checkFileMagicNumber_outcome:
  assumes "4 \<le> slen data"
  shows "(checkFileMagicNumber data = Inl Exit1 \<longleftrightarrow> take 4 (elems data) \<noteq> cook)
    \<and> (checkFileMagicNumber data = Inr () \<longleftrightarrow> take 4 (elems data) = cook)
    \<and> checkFileMagicNumber data \<noteq> Inl Panic
    \<and> (take 4 (elems data) \<noteq> cook \<longrightarrow> mainCookies oor data = Inl Exit1)"
  using assms by (simp add: checkFileMagicNumber_result mainCookies_def bindE_def)

theorem checkFileMagicNumber_outcome_witness:
  "4 \<le> slen wrongMagic \<and> take 4 (elems wrongMagic) \<noteq> cook
   \<and> checkFileMagicNumber wrongMagic = Inl Exit1
   \<and> mainCookies amd64Conv wrongMagic = Inl Exit1"
proof -
  have "4 \<le> slen wrongMagic"
    by (simp add: wrongMagic_def slen_def)
  moreover have "take 4 (elems wrongMagic) \<noteq> cook"
    by (simp add: wrongMagic_def cook_def)
  ultimately show ?thesis
    using checkFileMagicNumber_outcome [of wrongMagic amd64Conv] by simp
qed

text \<open>
  The claim as the specification states it fails: the buffer that holds the four bytes
  \<^verbatim>\<open>cook\<close> and nothing else is shorter than 8 bytes, and the check accepts it.
\<close>

theorem checkFileMagicNumber_short_accepted:
  "slen cookOnly < 8 \<and> checkFileMagicNumber cookOnly = Inr ()"
  by (simp add: cookOnly_def slen_def checkFileMagicNumber_def sliceLoHi_def scap_def mem_def
      bindE_def cook_def)

section \<open>The cookie count of a page\<close>

text \<open>The count is parsed in base 10: at most eight digits, so it is below \<open>10\<^sup>8\<close>.\<close>

lemma parseDigits10_bound:
  "n < 10 ^ k \<Longrightarrow> k + length cs \<le> 19 \<Longrightarrow> fst (parseDigits 10 n cs) < 10 ^ (k + length cs)"
proof (induction cs arbitrary: n k)
  case Nil
  then show ?case by simp
next
  case (Cons c cs)
  have k18: "k \<le> 18" using Cons.prems by simp
  have "(10::nat) ^ k \<le> 10 ^ 18" using k18 by (rule power_increasing) simp
  then have n18: "n < 10 ^ 18" using Cons.prems(1) by linarith
  have pos: "(0::nat) < 10 ^ (k + length (c # cs))" by simp
  show ?case
  proof (cases "digitVal c")
    case None
    then show ?thesis using pos by simp
  next
    case (Some d)
    show ?thesis
    proof (cases "d \<ge> 10")
      case True
      then show ?thesis using Some pos by simp
    next
      case False
      have "n * 10 + d < 10 ^ Suc k"
        using Cons.prems(1) False by simp
      then have "fst (parseDigits 10 (n * 10 + d) cs) < 10 ^ (Suc k + length cs)"
        using Cons.prems(2) by (intro Cons.IH) simp_all
      moreover have "parseDigits 10 n (c # cs) = parseDigits 10 (n * 10 + d) cs"
        using Some False n18 by (simp add: maxUint64_def)
      ultimately show ?thesis by simp
    qed
  qed
qed

lemma length_EncodeToString: "length (EncodeToString bs) = 2 * length bs"
  by (induction bs) simp_all

lemma cookie_count_bound:
  "length bs \<le> 4 \<Longrightarrow> fst (ParseUint (EncodeToString (reverseByteSlice bs)) 10) < 2 ^ 63"
proof -
  assume len: "length bs \<le> 4"
  let ?s = "EncodeToString (reverseByteSlice bs)"
  have l: "length ?s \<le> 8"
    using len by (simp add: length_EncodeToString reverseByteSlice_rev)
  have "fst (parseDigits 10 0 ?s) < 10 ^ (0 + length ?s)"
    using l by (intro parseDigits10_bound) simp_all
  also have "(10::nat) ^ (0 + length ?s) \<le> 10 ^ 8"
    using l by (intro power_increasing) simp_all
  finally have "fst (parseDigits 10 0 ?s) < 2 ^ 63" by simp
  then show ?thesis by (simp add: ParseUint_def)
qed

section \<open>The offset table and the records of a page\<close>

lemma offsetsLoop_result:
  "0 \<le> j \<Longrightarrow> startOffset = 8 + 4 * j \<Longrightarrow> endOffset = 12 + 4 * j \<Longrightarrow>
   offsetsLoop rb n j startOffset endOffset offs =
     (if n \<le> j \<or> 8 + 4 * n \<le> int (scap rb)
      then Inr (offs @ map (\<lambda>k. fieldLE rb (8 + 4 * k)) [nat j..<nat n])
      else Inl Panic)"
proof (induction rb n j startOffset endOffset offs rule: offsetsLoop.induct)
  case (1 rb n j startOffset endOffset offs)
  show ?case
  proof (cases "j < n")
    case False
    then show ?thesis by (subst offsetsLoop.simps) simp
  next
    case True
    show ?thesis
    proof (cases "endOffset \<le> int (scap rb)")
      case False
      then have "sliceLoHi rb startOffset endOffset = Inl Panic"
        by (simp add: sliceLoHi_def)
      then show ?thesis
        using True False "1.prems" by (subst offsetsLoop.simps) simp
    next
      case le: True
      let ?s = "\<lparr>elems = take 4 (drop (nat startOffset) (mem rb)),
                 spare = drop (nat endOffset) (mem rb)\<rparr>"
      have d: "nat endOffset - nat startOffset = 4"
        using "1.prems" by simp
      have sl: "sliceLoHi rb startOffset endOffset = Inr ?s"
        using le "1.prems" d by (simp add: sliceLoHi_def)
      have so: "nat startOffset = 8 + 4 * nat j"
        using "1.prems" by (simp add: nat_add_distrib nat_mult_distrib)
      have v: "convertHexToUint (reverseByteSlice (elems ?s)) = fieldLE rb (8 + 4 * nat j)"
        by (simp add: so field_value)
      have "offsetsLoop rb n j startOffset endOffset offs =
          offsetsLoop rb n (j + 1) (startOffset + 4) (endOffset + 4)
            (offs @ [convertHexToUint (reverseByteSlice (elems ?s))])"
        using True sl by (subst offsetsLoop.simps) simp
      also have "\<dots> =
          (if n \<le> j + 1 \<or> 8 + 4 * n \<le> int (scap rb)
           then Inr ((offs @ [convertHexToUint (reverseByteSlice (elems ?s))]) @
                  map (\<lambda>k. fieldLE rb (8 + 4 * k)) [nat (j + 1)..<nat n])
           else Inl Panic)"
        by (rule "1.IH" [OF True sl]) (use "1.prems" in simp_all)
      finally show ?thesis
        using True le "1.prems" upt_nat_step [of j n] v by auto
    qed
  qed
qed

lemma sliceFrom_goInt:
  "off < 2 ^ 64 \<Longrightarrow> sliceFrom rb (goInt off) = Inr s \<Longrightarrow> elems s = drop off (elems rb)"
  by (auto simp add: sliceFrom_def goInt_def split: if_splits)

lemma sliceLoHi_goInt:
  "off < 2 ^ 64 \<Longrightarrow> off' < 2 ^ 64 \<Longrightarrow> sliceLoHi rb (goInt off) (goInt off') = Inr s \<Longrightarrow>
   elems s = take (off' - off) (drop off (mem rb))"
  by (auto simp add: sliceLoHi_def goInt_def split: if_splits)

lemma rawCookiesLoop_Inr:
  "rawCookiesLoop rb offs acc = Inr cs \<Longrightarrow> \<forall>off \<in> set offs. off < 2 ^ 64 \<Longrightarrow>
   length cs = length acc + length offs \<and>
   map (\<lambda>c. elems (rawBytes c)) cs = map (\<lambda>c. elems (rawBytes c)) acc @ recordSpans rb offs"
proof (induction rb offs acc arbitrary: cs rule: rawCookiesLoop.induct)
  case (1 rb acc)
  then show ?case by simp
next
  case (2 rb off acc)
  then show ?case
    by (auto simp add: sliceFrom_goInt split: sum.splits)
next
  case (3 rb off off' rest acc)
  from "3.prems" obtain s where
    s: "sliceLoHi rb (goInt off) (goInt off') = Inr s" and
    r: "rawCookiesLoop rb (off' # rest) (acc @ [zeroCookie\<lparr>rawBytes := s\<rparr>]) = Inr cs"
    by (auto split: sum.splits)
  have e: "elems s = take (off' - off) (drop off (mem rb))"
    using s "3.prems"(2) by (intro sliceLoHi_goInt) simp_all
  show ?case
    using "3.IH" [OF s r] "3.prems"(2) e by simp
qed

lemma fieldLE_lt64: "fieldLE rb k < 2 ^ 64"
  using fieldLE_bound [of rb k] by simp

lemma extractCookiesFromPage_unfold:
  "extractCookiesFromPage pg =
     bindE (sliceLoHi (pageRawBytes pg) 4 8) (\<lambda>cnt.
       bindE (offsetsLoop (pageRawBytes pg)
                (goInt (fst (ParseUint (EncodeToString (reverseByteSlice (elems cnt))) 10)))
                0 8 12 (cookieOffsets pg)) (\<lambda>offs.
         bindE (rawCookiesLoop (pageRawBytes pg) offs (cookies pg)) (\<lambda>cs.
           Inr (pg\<lparr>numCookiesInPage :=
                      fst (ParseUint (EncodeToString (reverseByteSlice (elems cnt))) 10),
                   cookieOffsets := offs, cookies := cs\<rparr>))))"
  by (simp add: extractCookiesFromPage_def Let_def case_prod_beta)

lemma extractCookiesFromPage_Inr:
  assumes "extractCookiesFromPage pg = Inr pg'" and "cookieOffsets pg = []" and "cookies pg = []"
  shows "pageRawBytes pg' = pageRawBytes pg"
    and "numCookiesInPage pg' =
      fst (ParseUint (EncodeToString (reverseByteSlice (take 4 (drop 4 (mem (pageRawBytes pg)))))) 10)"
    and "cookieOffsets pg' =
      map (\<lambda>k. fieldLE (pageRawBytes pg) (8 + 4 * k)) [0..<numCookiesInPage pg']"
    and "length (cookies pg') = numCookiesInPage pg'"
    and "map (\<lambda>c. elems (rawBytes c)) (cookies pg') =
      recordSpans (pageRawBytes pg) (cookieOffsets pg')"
proof -
  let ?rb = "pageRawBytes pg"
  let ?a = "fst (ParseUint (EncodeToString (reverseByteSlice (take 4 (drop 4 (mem ?rb))))) 10)"
  let ?offs = "map (\<lambda>k. fieldLE ?rb (8 + 4 * k)) [0..<?a]"
  from assms(1) obtain cnt where cnt: "sliceLoHi ?rb 4 8 = Inr cnt"
    by (auto simp add: extractCookiesFromPage_unfold bindE_eq_Inr)
  then have ec: "elems cnt = take 4 (drop 4 (mem ?rb))"
    by (auto simp add: sliceLoHi_def split: if_splits)
  have a63: "?a < 2 ^ 63"
    by (rule cookie_count_bound) simp
  have ga: "goInt ?a = int ?a"
    using a63 by (rule goInt_small)
  from assms(1) cnt ec obtain offs cs where
    offs: "offsetsLoop ?rb (int ?a) 0 8 12 [] = Inr offs" and
    cs: "rawCookiesLoop ?rb offs [] = Inr cs" and
    pg': "pg' = pg\<lparr>numCookiesInPage := ?a, cookieOffsets := offs, cookies := cs\<rparr>"
    using assms(2,3)
    by (auto simp add: extractCookiesFromPage_unfold bindE_eq_Inr ga)
  have o: "offs = ?offs"
    using offs offsetsLoop_result [of 0 8 12 ?rb "int ?a" "[]"]
    by (simp split: if_splits)
  have "\<forall>off \<in> set offs. off < 2 ^ 64"
    unfolding o using fieldLE_lt64 by auto
  then have c: "length cs = length offs"
    "map (\<lambda>c. elems (rawBytes c)) cs = recordSpans ?rb offs"
    using rawCookiesLoop_Inr [OF cs] by simp_all
  show "pageRawBytes pg' = pageRawBytes pg" by (simp add: pg')
  show "numCookiesInPage pg' = ?a" by (simp add: pg')
  show "cookieOffsets pg' =
      map (\<lambda>k. fieldLE (pageRawBytes pg) (8 + 4 * k)) [0..<numCookiesInPage pg']"
    by (simp add: pg' o)
  show "length (cookies pg') = numCookiesInPage pg'"
    using c(1) by (simp add: pg' o)
  show "map (\<lambda>c. elems (rawBytes c)) (cookies pg') =
      recordSpans (pageRawBytes pg) (cookieOffsets pg')"
    using c(2) by (simp add: pg')
qed

lemma extractCookiesLoop_Inr:
  "extractCookiesLoop pgs = Inr pgs' \<Longrightarrow>
   list_all2 (\<lambda>pg pg'. extractCookiesFromPage pg = Inr pg') pgs pgs'"
proof (induction pgs arbitrary: pgs')
  case Nil
  then show ?case by simp
next
  case (Cons pg rest)
  then show ?case
    by (auto split: sum.splits)
qed

lemma extractPagesLoop_fresh:
  "extractPagesLoop data hs sizes offsetCounter acc = Inr pgs \<Longrightarrow>
   \<forall>p \<in> set acc. cookieOffsets p = [] \<and> cookies p = [] \<Longrightarrow>
   \<forall>p \<in> set pgs. cookieOffsets p = [] \<and> cookies p = []"
proof (induction data hs sizes offsetCounter acc arbitrary: pgs rule: extractPagesLoop.induct)
  case (1 data hs offsetCounter acc)
  then show ?case by simp
next
  case (2 data hs sz offsetCounter acc)
  then show ?case
    by (auto simp add: zeroPage_def split: sum.splits)
next
  case (3 data hs sz v va offsetCounter acc)
  from "3.prems"(1) obtain rb where
    rb: "sliceLoHi data (int (u64 (hs + offsetCounter))) (int (u64 (hs + sz))) = Inr rb" and
    r: "extractPagesLoop data hs (v # va) (u64 (offsetCounter + sz))
          (acc @ [zeroPage\<lparr>pageRawBytes := rb\<rparr>]) = Inr pgs"
    by (auto split: sum.splits)
  show ?case
    using "3.IH" [OF rb r] "3.prems"(2) by (simp add: zeroPage_def)
qed

lemma extractPages_fresh:
  "extractPages data = Inr ps \<Longrightarrow> \<forall>p \<in> set (pages ps). cookieOffsets p = [] \<and> cookies p = []"
  using extractPagesLoop_fresh [of data _ _ 0 "[]"]
  by (auto simp add: extractPages_unfold bindE_eq_Inr split: if_splits)

section \<open>The decoded list\<close>

lemma decodeCookie_rawBytes: "decodeCookie oor ck = Inr ck' \<Longrightarrow> rawBytes ck' = rawBytes ck"
  using decodeCookie_InrD(6) [of oor ck ck'] by simp

lemma decodeCookieList_Inr:
  "decodeCookieList oor cs allCookies = Inr (cs', all') \<Longrightarrow>
   all' = allCookies @ cs' \<and> map rawBytes cs' = map rawBytes cs"
proof (induction cs arbitrary: allCookies cs' all')
  case Nil
  then show ?case by simp
next
  case (Cons ck rest)
  from Cons.prems obtain ck' rest' where
    ck': "decodeCookie oor ck = Inr ck'" and
    r: "decodeCookieList oor rest (allCookies @ [ck']) = Inr (rest', all')" and
    cs': "cs' = ck' # rest'"
    by (auto split: sum.splits)
  show ?case
    using Cons.IH [OF r] decodeCookie_rawBytes [OF ck'] cs' by simp
qed

lemma decodePageList_Inr:
  "decodePageList oor pgs allCookies = Inr (pgs', all') \<Longrightarrow>
   map rawBytes all' = map rawBytes allCookies @ concat (map (\<lambda>p. map rawBytes (cookies p)) pgs)"
proof (induction pgs arbitrary: allCookies pgs' all')
  case Nil
  then show ?case by simp
next
  case (Cons pg rest)
  from Cons.prems obtain cs all1 rest' where
    c: "decodeCookieList oor (cookies pg) allCookies = Inr (cs, all1)" and
    r: "decodePageList oor rest all1 = Inr (rest', all')"
    by (auto split: sum.splits)
  show ?case
    using Cons.IH [OF r] decodeCookieList_Inr [OF c] by simp
qed

lemma extracted_page_facts:
  assumes all2: "list_all2 (\<lambda>pg pg'. extractCookiesFromPage pg = Inr pg') pgs pgs'"
    and fresh: "\<forall>p \<in> set pgs. cookieOffsets p = [] \<and> cookies p = []"
    and p: "p \<in> set pgs'"
  shows "numCookiesInPage p =
      fst (ParseUint (EncodeToString (reverseByteSlice (take 4 (drop 4 (mem (pageRawBytes p)))))) 10)"
    and "cookieOffsets p = map (\<lambda>k. fieldLE (pageRawBytes p) (8 + 4 * k)) [0..<numCookiesInPage p]"
    and "length (cookies p) = numCookiesInPage p"
    and "map (\<lambda>c. elems (rawBytes c)) (cookies p) = recordSpans (pageRawBytes p) (cookieOffsets p)"
proof -
  from p obtain i where i: "i < length pgs'" and pi: "p = pgs' ! i"
    by (auto simp add: in_set_conv_nth)
  have len: "length pgs = length pgs'"
    using all2 by (rule list_all2_lengthD)
  have ex: "extractCookiesFromPage (pgs ! i) = Inr p"
    using all2 i pi by (simp add: list_all2_conv_all_nth)
  have fr: "cookieOffsets (pgs ! i) = []" "cookies (pgs ! i) = []"
    using fresh i len by simp_all
  note f = extractCookiesFromPage_Inr [OF ex fr]
  show "numCookiesInPage p =
      fst (ParseUint (EncodeToString (reverseByteSlice (take 4 (drop 4 (mem (pageRawBytes p)))))) 10)"
    using f(1,2) by simp
  show "cookieOffsets p = map (\<lambda>k. fieldLE (pageRawBytes p) (8 + 4 * k)) [0..<numCookiesInPage p]"
    using f(1,3) by simp
  show "length (cookies p) = numCookiesInPage p"
    using f(4) .
  show "map (\<lambda>c. elems (rawBytes c)) (cookies p) = recordSpans (pageRawBytes p) (cookieOffsets p)"
    using f(1,5) by simp
qed

lemma extracted_pages_rawBytes:
  "list_all2 (\<lambda>pg pg'. extractCookiesFromPage pg = Inr pg') pgs pgs' \<Longrightarrow>
   \<forall>p \<in> set pgs. cookieOffsets p = [] \<and> cookies p = [] \<Longrightarrow>
   map pageRawBytes pgs' = map pageRawBytes pgs"
proof (induction rule: list_all2_induct)
  case Nil
  then show ?case by simp
next
  case (Cons pg pgs pg' pgs')
  then show ?case
    using extractCookiesFromPage_Inr(1) [of pg pg'] by simp
qed

section \<open>The pages of a file\<close>

text \<open>
  When the loop of \<^verbatim>\<open>extractPages\<close> returns, it has appended one page for each size, in
  the order of the sizes: the page of a size that is not the last is the slice from the
  header size plus the sizes before it to the header size plus its own size, the page of
  the last size the slice from the header size plus the sizes before it to the end.
\<close>

lemma extractPagesLoop_slices:
  "extractPagesLoop data hs sizes offsetCounter acc = Inr pgs \<Longrightarrow>
   \<forall>sz \<in> set sizes. sz < 2 ^ 32 \<Longrightarrow> hs < 2 ^ 36 \<Longrightarrow> offsetCounter < 2 ^ 63 \<Longrightarrow>
   map (\<lambda>p. (Inr (pageRawBytes p) :: failure + bslice)) pgs =
     map (\<lambda>p. Inr (pageRawBytes p)) acc @
     map (\<lambda>i. if Suc i = length sizes
               then sliceFrom data (int (hs + offsetCounter + sum_list (take i sizes)))
               else sliceLoHi data (int (hs + offsetCounter + sum_list (take i sizes)))
                      (int (hs + sizes ! i)))
       [0..<length sizes]"
proof (induction data hs sizes offsetCounter acc arbitrary: pgs rule: extractPagesLoop.induct)
  case (1 data hs offsetCounter acc)
  then show ?case by simp
next
  case (2 data hs sz offsetCounter acc)
  have "u64 (hs + offsetCounter) = hs + offsetCounter"
    using "2.prems"(3,4) by (simp add: u64_def)
  then show ?case
    using "2.prems"(1) by (auto simp add: zeroPage_def split: sum.splits)
next
  case (3 data hs sz v va offsetCounter acc)
  have sz: "sz < 2 ^ 32"
    using "3.prems"(2) by simp
  have lo: "u64 (hs + offsetCounter) = hs + offsetCounter"
    using "3.prems"(3,4) by (simp add: u64_def)
  have hi: "u64 (hs + sz) = hs + sz"
    using "3.prems"(3) sz by (simp add: u64_def)
  from "3.prems"(1) obtain rb where
    rb: "sliceLoHi data (int (u64 (hs + offsetCounter))) (int (u64 (hs + sz))) = Inr rb" and
    r: "extractPagesLoop data hs (v # va) (u64 (offsetCounter + sz))
          (acc @ [zeroPage\<lparr>pageRawBytes := rb\<rparr>]) = Inr pgs"
    by (auto split: sum.splits)
  have "offsetCounter \<le> sz"
    using rb by (simp add: lo hi sliceLoHi_def split: if_splits)
  then have oc: "u64 (offsetCounter + sz) = offsetCounter + sz" "offsetCounter + sz < 2 ^ 63"
    using sz by (simp_all add: u64_def)
  have rest: "\<forall>sz \<in> set (v # va). sz < 2 ^ 32"
    using "3.prems"(2) by simp
  have "map (\<lambda>p. (Inr (pageRawBytes p) :: failure + bslice)) pgs =
     map (\<lambda>p. Inr (pageRawBytes p)) (acc @ [zeroPage\<lparr>pageRawBytes := rb\<rparr>]) @
     map (\<lambda>i. if Suc i = length (v # va)
               then sliceFrom data (int (hs + u64 (offsetCounter + sz) + sum_list (take i (v # va))))
               else sliceLoHi data (int (hs + u64 (offsetCounter + sz) + sum_list (take i (v # va))))
                      (int (hs + (v # va) ! i)))
       [0..<length (v # va)]"
    using rest "3.prems"(3) oc(2) by (intro "3.IH" [OF rb r]) (simp_all add: oc(1))
  then show ?case
    using rb by (simp add: lo hi oc(1) zeroPage_def map_upt_Suc add.assoc del: upt_Suc)
qed

lemma extractPages_slices:
  assumes "extractPages data = Inr ps"
  shows "length (pages ps) = numPages ps"
    and "length (pageSizes ps) = numPages ps"
    and "map (\<lambda>p. (Inr (pageRawBytes p) :: failure + bslice)) (pages ps) =
      map (\<lambda>i. if Suc i = numPages ps
                then sliceFrom data (int (headerSize ps + sum_list (take i (pageSizes ps))))
                else sliceLoHi data (int (headerSize ps + sum_list (take i (pageSizes ps))))
                       (int (headerSize ps + pageSizes ps ! i)))
        [0..<numPages ps]"
proof -
  have small: "fieldBE data 4 < 2 ^ 63"
    using fieldBE_bound [of data 4] by simp
  from assms obtain sizes pgs where
    sz: "parseSizeOfPages data (fieldBE data 4) = Inr sizes" and
    loop: "extractPagesLoop data (8 + 4 * fieldBE data 4) sizes 0 [] = Inr pgs" and
    ps: "ps = \<lparr>pages = pgs, numPages = fieldBE data 4, pageSizes = sizes,
                headerSize = 8 + 4 * fieldBE data 4\<rparr>"
    by (auto simp add: extractPages_unfold bindE_eq_Inr split: if_splits)
  from sz have sizes: "sizes = map (\<lambda>k. fieldBE data (8 + 4 * k)) [0..<fieldBE data 4]"
    by (simp add: parseSizeOfPages_result [OF small] split: if_splits)
  then have len: "length sizes = fieldBE data 4"
    by simp
  have b: "\<forall>sz \<in> set sizes. sz < 2 ^ 32"
    unfolding sizes using fieldBE_bound by auto
  have hs: "8 + 4 * fieldBE data 4 < 2 ^ 36"
    using fieldBE_bound [of data 4] by simp
  have m: "map (\<lambda>p. (Inr (pageRawBytes p) :: failure + bslice)) pgs =
     map (\<lambda>i. if Suc i = length sizes
               then sliceFrom data (int (8 + 4 * fieldBE data 4 + 0 + sum_list (take i sizes)))
               else sliceLoHi data (int (8 + 4 * fieldBE data 4 + 0 + sum_list (take i sizes)))
                      (int (8 + 4 * fieldBE data 4 + sizes ! i)))
       [0..<length sizes]"
    using extractPagesLoop_slices [OF loop b hs] by simp
  show "length (pageSizes ps) = numPages ps"
    by (simp add: ps len)
  show "length (pages ps) = numPages ps"
    using arg_cong [OF m, of length] by (simp add: ps len)
  show "map (\<lambda>p. (Inr (pageRawBytes p) :: failure + bslice)) (pages ps) =
      map (\<lambda>i. if Suc i = numPages ps
                then sliceFrom data (int (headerSize ps + sum_list (take i (pageSizes ps))))
                else sliceLoHi data (int (headerSize ps + sum_list (take i (pageSizes ps))))
                       (int (headerSize ps + pageSizes ps ! i)))
        [0..<numPages ps]"
    using m by (simp add: ps len)
qed

lemma decodeCookieList_all2:
  "decodeCookieList oor cs allCookies = Inr (cs', all') \<Longrightarrow>
   list_all2 (\<lambda>ck ck'. decodeCookie oor ck = Inr ck') cs cs'"
proof (induction cs arbitrary: allCookies cs' all')
  case Nil
  then show ?case by simp
next
  case (Cons ck rest)
  from Cons.prems obtain ck' rest' where
    ck': "decodeCookie oor ck = Inr ck'" and
    r: "decodeCookieList oor rest (allCookies @ [ck']) = Inr (rest', all')" and
    cs': "cs' = ck' # rest'"
    by (auto split: sum.splits)
  show ?case
    using Cons.IH [OF r] ck' cs' by simp
qed

lemma decodePageList_all2:
  "decodePageList oor pgs allCookies = Inr (pgs', all') \<Longrightarrow>
   \<exists>new. all' = allCookies @ new
     \<and> list_all2 (\<lambda>ck ck'. decodeCookie oor ck = Inr ck') (concat (map cookies pgs)) new"
proof (induction pgs arbitrary: allCookies pgs' all')
  case Nil
  then show ?case by simp
next
  case (Cons pg rest)
  from Cons.prems obtain cs all1 rest' where
    c: "decodeCookieList oor (cookies pg) allCookies = Inr (cs, all1)" and
    r: "decodePageList oor rest all1 = Inr (rest', all')"
    by (auto split: sum.splits)
  have all1: "all1 = allCookies @ cs"
    using decodeCookieList_Inr [OF c] by simp
  have d: "list_all2 (\<lambda>ck ck'. decodeCookie oor ck = Inr ck') (cookies pg) cs"
    using c by (rule decodeCookieList_all2)
  from Cons.IH [OF r] obtain new where
    new: "all' = all1 @ new"
      "list_all2 (\<lambda>ck ck'. decodeCookie oor ck = Inr ck') (concat (map cookies rest)) new"
    by blast
  have "all' = allCookies @ (cs @ new)"
    using new(1) all1 by simp
  moreover have "list_all2 (\<lambda>ck ck'. decodeCookie oor ck = Inr ck')
      (concat (map cookies (pg # rest))) (cs @ new)"
    using d new(2) by (simp add: list_all2_appendI)
  ultimately show ?case by blast
qed

text \<open>
  C9. When the run from the file's bytes to the decoded list completes, there is one page
  for each entry of the size table, in the order of the table: page \<open>i\<close> is the slice of
  the file that starts at the header size plus the sizes before it. The decoded list has
  as many cookies as the cookie counts parsed from these pages add up to, and it is the
  concatenation, in page order, of each page's records in the order of its offset table:
  the cookies are the decoded raw cookies of the pages, one for one, and their raw bytes
  are the spans the offset tables cut out of the pages.
\<close>

theorem mainCookies_count_and_order:
  assumes "mainCookies oor data = Inr allCookies"
  shows "\<exists>ps0 ps1.
      extractPages data = Inr ps0 \<and> extractCookiesFromPages ps0 = Inr ps1
    \<and> length (pageSizes ps0) = numPages ps0 \<and> length (pages ps1) = numPages ps0
    \<and> map (\<lambda>p. (Inr (pageRawBytes p) :: failure + bslice)) (pages ps1) =
        map (\<lambda>i. if Suc i = numPages ps0
                  then sliceFrom data (int (headerSize ps0 + sum_list (take i (pageSizes ps0))))
                  else sliceLoHi data (int (headerSize ps0 + sum_list (take i (pageSizes ps0))))
                         (int (headerSize ps0 + pageSizes ps0 ! i)))
          [0..<numPages ps0]
    \<and> map pageRawBytes (pages ps1) = map pageRawBytes (pages ps0)
    \<and> (\<forall>p \<in> set (pages ps1).
          numCookiesInPage p =
            fst (ParseUint
              (EncodeToString (reverseByteSlice (take 4 (drop 4 (mem (pageRawBytes p)))))) 10)
        \<and> cookieOffsets p =
            map (\<lambda>k. fieldLE (pageRawBytes p) (8 + 4 * k)) [0..<numCookiesInPage p]
        \<and> length (cookies p) = numCookiesInPage p
        \<and> map (\<lambda>c. elems (rawBytes c)) (cookies p) =
            recordSpans (pageRawBytes p) (cookieOffsets p))
    \<and> length allCookies = sum_list (map numCookiesInPage (pages ps1))
    \<and> list_all2 (\<lambda>ck c. decodeCookie oor ck = Inr c)
        (concat (map cookies (pages ps1))) allCookies
    \<and> map (\<lambda>c. elems (rawBytes c)) allCookies =
        concat (map (\<lambda>p. recordSpans (pageRawBytes p) (cookieOffsets p)) (pages ps1))"
proof -
  from assms obtain ps0 ps1 ps2 where
    e0: "extractPages data = Inr ps0" and
    e1: "extractCookiesFromPages ps0 = Inr ps1" and
    e2: "decodeCookies oor ps1 [] = Inr (ps2, allCookies)"
    by (auto simp add: mainCookies_def bindE_eq_Inr)
  from e1 have loop: "extractCookiesLoop (pages ps0) = Inr (pages ps1)"
    by (auto simp add: extractCookiesFromPages_def bindE_eq_Inr)
  have all2: "list_all2 (\<lambda>pg pg'. extractCookiesFromPage pg = Inr pg') (pages ps0) (pages ps1)"
    using loop by (rule extractCookiesLoop_Inr)
  have fresh: "\<forall>p \<in> set (pages ps0). cookieOffsets p = [] \<and> cookies p = []"
    using e0 by (rule extractPages_fresh)
  note pf = extracted_page_facts [OF all2 fresh]
  from e2 obtain pgs2 where dl: "decodePageList oor (pages ps1) [] = Inr (pgs2, allCookies)"
    by (auto simp add: decodeCookies_def bindE_eq_Inr)
  then have raw: "map rawBytes allCookies =
      concat (map (\<lambda>p. map rawBytes (cookies p)) (pages ps1))"
    using decodePageList_Inr [of oor "pages ps1" "[]" pgs2 allCookies] by simp
  have dec: "list_all2 (\<lambda>ck c. decodeCookie oor ck = Inr c)
      (concat (map cookies (pages ps1))) allCookies"
    using decodePageList_all2 [OF dl] by simp
  have "length allCookies = length (map rawBytes allCookies)"
    by simp
  also have "\<dots> = sum_list (map (\<lambda>p. length (cookies p)) (pages ps1))"
    unfolding raw by (simp add: length_concat comp_def)
  also have "\<dots> = sum_list (map numCookiesInPage (pages ps1))"
    using pf(3) by (intro arg_cong [where f = sum_list] map_cong) simp_all
  finally have count: "length allCookies = sum_list (map numCookiesInPage (pages ps1))" .
  have "map (\<lambda>c. elems (rawBytes c)) allCookies = map elems (map rawBytes allCookies)"
    by simp
  also have "\<dots> = concat (map (\<lambda>p. map (\<lambda>c. elems (rawBytes c)) (cookies p)) (pages ps1))"
    unfolding raw by (simp add: map_concat comp_def)
  also have "\<dots> = concat (map (\<lambda>p. recordSpans (pageRawBytes p) (cookieOffsets p)) (pages ps1))"
    using pf(4) by (intro arg_cong [where f = concat] map_cong) simp_all
  finally have order: "map (\<lambda>c. elems (rawBytes c)) allCookies =
      concat (map (\<lambda>p. recordSpans (pageRawBytes p) (cookieOffsets p)) (pages ps1))" .
  have same: "map pageRawBytes (pages ps1) = map pageRawBytes (pages ps0)"
    using all2 fresh by (rule extracted_pages_rawBytes)
  note sl = extractPages_slices [OF e0]
  have len1: "length (pages ps1) = numPages ps0"
    using sl(1) list_all2_lengthD [OF all2] by simp
  have "map (\<lambda>p. (Inr (pageRawBytes p) :: failure + bslice)) (pages ps1) =
      map Inr (map pageRawBytes (pages ps1))"
    by simp
  also have "\<dots> = map (\<lambda>p. Inr (pageRawBytes p)) (pages ps0)"
    unfolding same by simp
  finally have slices: "map (\<lambda>p. (Inr (pageRawBytes p) :: failure + bslice)) (pages ps1) =
        map (\<lambda>i. if Suc i = numPages ps0
                  then sliceFrom data (int (headerSize ps0 + sum_list (take i (pageSizes ps0))))
                  else sliceLoHi data (int (headerSize ps0 + sum_list (take i (pageSizes ps0))))
                         (int (headerSize ps0 + pageSizes ps0 ! i)))
          [0..<numPages ps0]"
    using sl(3) by simp
  show ?thesis
    using e0 e1 sl(2) len1 slices same pf count dec order by blast
qed

section \<open>The sample file, end to end\<close>

lemma ParseUint_count_one: "ParseUint (EncodeToString (reverseByteSlice [1, 0, 0, 0])) 10 = (1, None)"
  by (simp add: reverseByteSlice_rev ParseUint_def hextable_def digitVal_def lower_def
      maxUint64_def)

lemma extractCookiesFromPage_sample:
  "extractCookiesFromPage (zeroPage\<lparr>pageRawBytes := \<lparr>elems = samplePage, spare = []\<rparr>\<rparr>) =
     Inr (zeroPage\<lparr>pageRawBytes := \<lparr>elems = samplePage, spare = []\<rparr>,
            numCookiesInPage := 1, cookieOffsets := [16], cookies := [sampleCookie]\<rparr>)"
proof -
  let ?rb = "\<lparr>elems = samplePage, spare = []\<rparr>"
  have cap: "scap ?rb = 80" "slen ?rb = 80"
    by (simp_all add: scap_def slen_def samplePage_def sampleRecord_def)
  have cnt: "sliceLoHi ?rb 4 8 = Inr \<lparr>elems = [1, 0, 0, 0], spare = drop 8 samplePage\<rparr>"
    using sliceLoHi_nat [of 4 8 ?rb] by (simp add: cap) (simp add: mem_def samplePage_def)
  have offs: "offsetsLoop ?rb 1 0 8 12 [] = Inr [16]"
    using offsetsLoop_result [of 0 8 12 ?rb 1 "[]"]
    by (simp add: cap) (simp add: fieldLE_def mem_def samplePage_def)
  have raw: "rawCookiesLoop ?rb [16] [] = Inr [sampleCookie]"
    by (simp add: sliceFrom_def goInt_def cap sampleCookie_def) (simp add: samplePage_def)
  show ?thesis
    by (simp add: extractCookiesFromPage_unfold zeroPage_def cnt bindE_def ParseUint_count_one
        goInt_def offs raw del: rawCookiesLoop.simps)
qed

lemma mainCookies_sample:
  "mainCookies oor sampleData =
     Inr [sampleCookie\<lparr>Size := 64, Name := [0x61], Value := [0x62], Domain' := [0x63],
            Path := [0x2f], Flags := ''Secure; HttpOnly'', Expires := Some 978307200,
            LastAccessed := Some 978307200\<rparr>]"
proof -
  have "take 4 (elems sampleData) = cook"
    by (simp add: sampleData_def sampleFile_def cook_def)
  then have chk: "checkFileMagicNumber sampleData = Inr ()"
    by (simp add: checkFileMagicNumber_result sampleFile_header)
  show ?thesis
    by (simp add: mainCookies_def chk extractPages_sample extractCookiesFromPages_def
        extractCookiesFromPage_sample decodeCookies_def decodeCookie_sample bindE_def)
qed

section \<open>A page of ten cookies\<close>

lemma length_sampleRecord: "length sampleRecord = 64"
  by (simp add: sampleRecord_def)

lemma length_tenCookiePage: "length tenCookiePage = 692"
  by (simp add: tenCookiePage_def length_concat length_sampleRecord sum_list_replicate)

lemma ParseUint_count_ten:
  "ParseUint (EncodeToString (reverseByteSlice [10, 0, 0, 0])) 10 = (0, Some ErrSyntax)"
  "ParseUint (EncodeToString (reverseByteSlice [10, 0, 0, 0])) 16 = (10, None)"
  by (simp_all add: reverseByteSlice_rev ParseUint_def hextable_def digitVal_def lower_def
      maxUint64_def)

lemma extractCookiesFromPage_ten:
  "extractCookiesFromPage (zeroPage\<lparr>pageRawBytes := \<lparr>elems = tenCookiePage, spare = []\<rparr>\<rparr>) =
     Inr (zeroPage\<lparr>pageRawBytes := \<lparr>elems = tenCookiePage, spare = []\<rparr>\<rparr>)"
proof -
  let ?rb = "\<lparr>elems = tenCookiePage, spare = []\<rparr>"
  have cap: "scap ?rb = 692"
    by (simp add: scap_def length_tenCookiePage)
  have cnt: "sliceLoHi ?rb 4 8 = Inr \<lparr>elems = [10, 0, 0, 0], spare = drop 8 tenCookiePage\<rparr>"
    using sliceLoHi_nat [of 4 8 ?rb] by (simp add: cap) (simp add: mem_def tenCookiePage_def)
  have offs: "offsetsLoop ?rb 0 0 8 12 [] = Inr []"
    using offsetsLoop_result [of 0 8 12 ?rb 0 "[]"] by simp
  show ?thesis
    by (simp add: extractCookiesFromPage_unfold zeroPage_def cnt bindE_def ParseUint_count_ten
        goInt_def offs)
qed

text \<open>
  C1 fails on the code. The page holds ten records and its count field, bytes \<open>[4, 8)\<close>,
  is \<^verbatim>\<open>0a 00 00 00\<close>, little-endian 10; \<^verbatim>\<open>convertHexToUint\<close>, the routine of every other
  field, reads the reversed bytes as 10. \<^verbatim>\<open>extractCookiesFromPages\<close> parses the hex text
  \<^verbatim>\<open>0000000a\<close> in base 10, which is an error whose value is 0: the page is given no
  cookies, and the file decodes to the empty list.
\<close>

theorem cookie_count_parsed_in_base_10:
  "le_val [10, 0, 0, 0] = 10
   \<and> take 4 (drop 4 tenCookiePage) = [10, 0, 0, 0]
   \<and> convertHexToUint (reverseByteSlice [10, 0, 0, 0]) = 10
   \<and> extractCookiesFromPage (zeroPage\<lparr>pageRawBytes := \<lparr>elems = tenCookiePage, spare = []\<rparr>\<rparr>) =
       Inr (zeroPage\<lparr>pageRawBytes := \<lparr>elems = tenCookiePage, spare = []\<rparr>,
              numCookiesInPage := 0, cookieOffsets := [], cookies := []\<rparr>)
   \<and> mainCookies amd64Conv \<lparr>elems = tenCookieFile, spare = []\<rparr> = Inr []"
proof (intro conjI)
  show "le_val [10, 0, 0, 0] = 10" by simp
  show "take 4 (drop 4 tenCookiePage) = [10, 0, 0, 0]" by (simp add: tenCookiePage_def)
  show "convertHexToUint (reverseByteSlice [10, 0, 0, 0]) = 10"
    by (simp add: convertHexToUint_le)
  show "extractCookiesFromPage (zeroPage\<lparr>pageRawBytes := \<lparr>elems = tenCookiePage, spare = []\<rparr>\<rparr>) =
       Inr (zeroPage\<lparr>pageRawBytes := \<lparr>elems = tenCookiePage, spare = []\<rparr>,
              numCookiesInPage := 0, cookieOffsets := [], cookies := []\<rparr>)"
    by (simp add: extractCookiesFromPage_ten) (simp add: zeroPage_def)
  let ?d = "\<lparr>elems = tenCookieFile, spare = []\<rparr>"
  have h: "scap ?d = 704" "slen ?d = 704" "fieldBE ?d 4 = 1" "fieldBE ?d 8 = 692"
    by (simp_all add: tenCookieFile_def scap_def slen_def length_tenCookiePage fieldBE_def mem_def)
  have "take 4 (elems ?d) = cook"
    by (simp add: tenCookieFile_def cook_def)
  then have chk: "checkFileMagicNumber ?d = Inr ()"
    by (simp add: checkFileMagicNumber_result h)
  have "sliceFrom ?d 12 = Inr \<lparr>elems = tenCookiePage, spare = []\<rparr>"
    by (simp add: sliceFrom_def h) (simp add: tenCookieFile_def)
  then have pgs: "extractPages ?d =
      Inr \<lparr>pages = [zeroPage\<lparr>pageRawBytes := \<lparr>elems = tenCookiePage, spare = []\<rparr>\<rparr>],
           numPages = 1, pageSizes = [692], headerSize = 12\<rparr>"
    by (simp add: extractPages_unfold parseSizeOfPages_result h bindE_def u64_def)
  show "mainCookies amd64Conv ?d = Inr []"
    by (simp add: mainCookies_def chk pgs extractCookiesFromPages_def extractCookiesFromPage_ten
        decodeCookies_def bindE_def) (simp add: zeroPage_def)
qed

section \<open>The file of two pages, end to end\<close>

lemma length_records:
  "length sampleRecord = 64" "length recordX = 64" "length recordN = 64"
  by (simp_all add: sampleRecord_def recordX_def recordN_def)

lemma length_pages: "length pageA = 148" "length pageB = 80"
  by (simp_all add: pageA_def pageB_def length_records)

lemma decode_clean_record:
  assumes rb: "rawBytes ck = \<lparr>elems = r, spare = sp\<rparr>"
    and r: "r =
     [64, 0, 0, 0,  0, 0, 0, 0,  fl, 0, 0, 0,  0, 0, 0, 0,
      56, 0, 0, 0,  58, 0, 0, 0,  60, 0, 0, 0,  62, 0, 0, 0,
      0, 0, 0, 0, 0, 0, 0, 0,
      0, 0, 0, 0, 0, 0, 0, 0,
      0, 0, 0, 0, 0, 0, 0, 0,
      d, 0,  n, 0,  p, 0,  v, 0]"
    and nz: "d \<noteq> 0" "n \<noteq> 0" "p \<noteq> 0" "v \<noteq> 0"
  shows "decodeCookie oor ck =
     Inr (ck\<lparr>Size := 64, Name := [n], Value := [v], Domain' := [d], Path := [p],
            Flags := flagText (int (unat fl)), Expires := Some 978307200,
            LastAccessed := Some 978307200\<rparr>)"
proof -
  let ?rb = "\<lparr>elems = r, spare = sp\<rparr>"
  have size: "56 \<le> scap ?rb" "slen ?rb = 64"
    by (simp_all add: scap_def slen_def r)
  have fields: "fieldLE ?rb 0 = 64" "fieldLE ?rb 8 = unat fl" "fieldLE ?rb 16 = 56"
    "fieldLE ?rb 20 = 58" "fieldLE ?rb 24 = 60" "fieldLE ?rb 28 = 62"
    by (simp_all add: fieldLE_def mem_def r)
  have texts: "textAt ?rb 56 = [d]" "textAt ?rb 58 = [n]" "textAt ?rb 60 = [p]"
    "textAt ?rb 62 = [v]"
    using nz by (simp_all add: textAt_def r)
  have times: "take 8 (drop 40 (mem ?rb)) = [0, 0, 0, 0, 0, 0, 0, 0]"
    "take 8 (drop 48 (mem ?rb)) = [0, 0, 0, 0, 0, 0, 0, 0]"
    by (simp_all add: mem_def r)
  show ?thesis
    by (simp add: decodeCookie_result rb size fields texts times convertHexToCoreDataTime_zero)
qed

lemma decodeCookie_twoPage:
  "decodeCookie oor rawA1 = Inr decodedA1"
  "decodeCookie oor rawA2 = Inr decodedA2"
  "decodeCookie oor rawB1 = Inr decodedB1"
proof -
  have a1: "rawBytes rawA1 = \<lparr>elems = sampleRecord, spare = recordX @ pageB\<rparr>"
    by (simp add: rawA1_def zeroCookie_def)
  have "decodeCookie oor rawA1 =
     Inr (rawA1\<lparr>Size := 64, Name := [0x61], Value := [0x62], Domain' := [0x63], Path := [0x2f],
            Flags := flagText (int (unat (5 :: byte))), Expires := Some 978307200,
            LastAccessed := Some 978307200\<rparr>)"
    by (rule decode_clean_record [OF a1 sampleRecord_def]) simp_all
  then show "decodeCookie oor rawA1 = Inr decodedA1"
    by (simp add: decodedA1_def flagText_def)
  have a2: "rawBytes rawA2 = \<lparr>elems = recordX, spare = pageB\<rparr>"
    by (simp add: rawA2_def zeroCookie_def)
  have "decodeCookie oor rawA2 =
     Inr (rawA2\<lparr>Size := 64, Name := [0x78], Value := [0x79], Domain' := [0x63], Path := [0x2f],
            Flags := flagText (int (unat (1 :: byte))), Expires := Some 978307200,
            LastAccessed := Some 978307200\<rparr>)"
    by (rule decode_clean_record [OF a2 recordX_def]) simp_all
  then show "decodeCookie oor rawA2 = Inr decodedA2"
    by (simp add: decodedA2_def flagText_def)
  have b1: "rawBytes rawB1 = \<lparr>elems = recordN, spare = []\<rparr>"
    by (simp add: rawB1_def zeroCookie_def)
  have "decodeCookie oor rawB1 =
     Inr (rawB1\<lparr>Size := 64, Name := [0x6e], Value := [0x76], Domain' := [0x63], Path := [0x2f],
            Flags := flagText (int (unat (4 :: byte))), Expires := Some 978307200,
            LastAccessed := Some 978307200\<rparr>)"
    by (rule decode_clean_record [OF b1 recordN_def]) simp_all
  then show "decodeCookie oor rawB1 = Inr decodedB1"
    by (simp add: decodedB1_def flagText_def)
qed

lemma ParseUint_count_two: "ParseUint (EncodeToString (reverseByteSlice [2, 0, 0, 0])) 10 = (2, None)"
  by (simp add: reverseByteSlice_rev ParseUint_def hextable_def digitVal_def lower_def
      maxUint64_def)

lemma twoPage_header:
  "scap twoPageData = 244" "slen twoPageData = 244"
  "fieldBE twoPageData 4 = 2" "fieldBE twoPageData 8 = 148" "fieldBE twoPageData 12 = 80"
  by (simp_all add: twoPageData_def twoPageFile_def scap_def slen_def length_pages fieldBE_def
      mem_def)

lemma extractPages_twoPage:
  "extractPages twoPageData =
     Inr \<lparr>pages = [zeroPage\<lparr>pageRawBytes := \<lparr>elems = pageA, spare = pageB\<rparr>\<rparr>,
                   zeroPage\<lparr>pageRawBytes := \<lparr>elems = pageB, spare = []\<rparr>\<rparr>],
          numPages = 2, pageSizes = [148, 80], headerSize = 16\<rparr>"
proof -
  have sizes: "parseSizeOfPages twoPageData 2 = Inr [148, 80]"
    by (simp add: parseSizeOfPages_result twoPage_header upt_rec)
  have a: "sliceLoHi twoPageData 16 164 = Inr \<lparr>elems = pageA, spare = pageB\<rparr>"
    using sliceLoHi_nat [of 16 164 twoPageData]
    by (simp add: twoPage_header) (simp add: mem_def twoPageData_def twoPageFile_def length_pages)
  have b: "sliceFrom twoPageData 164 = Inr \<lparr>elems = pageB, spare = []\<rparr>"
    by (simp add: sliceFrom_def twoPage_header)
      (simp add: twoPageData_def twoPageFile_def length_pages)
  have "extractPagesLoop twoPageData 16 [148, 80] 0 [] =
      Inr [zeroPage\<lparr>pageRawBytes := \<lparr>elems = pageA, spare = pageB\<rparr>\<rparr>,
           zeroPage\<lparr>pageRawBytes := \<lparr>elems = pageB, spare = []\<rparr>\<rparr>]"
    by (simp add: u64_def a b)
  then show ?thesis
    by (simp add: extractPages_unfold twoPage_header sizes bindE_def)
qed

lemma extractCookiesFromPage_A:
  "extractCookiesFromPage (zeroPage\<lparr>pageRawBytes := \<lparr>elems = pageA, spare = pageB\<rparr>\<rparr>) =
     Inr (zeroPage\<lparr>pageRawBytes := \<lparr>elems = pageA, spare = pageB\<rparr>,
            numCookiesInPage := 2, cookieOffsets := [20, 84], cookies := [rawA1, rawA2]\<rparr>)"
proof -
  let ?rb = "\<lparr>elems = pageA, spare = pageB\<rparr>"
  have cap: "scap ?rb = 228" "slen ?rb = 148"
    by (simp_all add: scap_def slen_def length_pages)
  have cnt: "sliceLoHi ?rb 4 8 = Inr \<lparr>elems = [2, 0, 0, 0], spare = drop 8 (pageA @ pageB)\<rparr>"
    using sliceLoHi_nat [of 4 8 ?rb] by (simp add: cap) (simp add: mem_def pageA_def)
  have offs: "offsetsLoop ?rb 2 0 8 12 [] = Inr [20, 84]"
    using offsetsLoop_result [of 0 8 12 ?rb 2 "[]"]
    by (simp add: cap upt_rec) (simp add: fieldLE_def mem_def pageA_def)
  have s1: "sliceLoHi ?rb 20 84 = Inr \<lparr>elems = sampleRecord, spare = recordX @ pageB\<rparr>"
    using sliceLoHi_nat [of 20 84 ?rb]
    by (simp add: cap) (simp add: mem_def pageA_def length_records)
  have s2: "sliceFrom ?rb 84 = Inr \<lparr>elems = recordX, spare = pageB\<rparr>"
    by (simp add: sliceFrom_def cap) (simp add: pageA_def length_records)
  have raw: "rawCookiesLoop ?rb [20, 84] [] = Inr [rawA1, rawA2]"
    by (simp add: goInt_def s1 s2 rawA1_def rawA2_def)
  show ?thesis
    by (simp add: extractCookiesFromPage_unfold zeroPage_def cnt bindE_def ParseUint_count_two
        goInt_def offs raw del: rawCookiesLoop.simps)
qed

lemma extractCookiesFromPage_B:
  "extractCookiesFromPage (zeroPage\<lparr>pageRawBytes := \<lparr>elems = pageB, spare = []\<rparr>\<rparr>) =
     Inr (zeroPage\<lparr>pageRawBytes := \<lparr>elems = pageB, spare = []\<rparr>,
            numCookiesInPage := 1, cookieOffsets := [16], cookies := [rawB1]\<rparr>)"
proof -
  let ?rb = "\<lparr>elems = pageB, spare = []\<rparr>"
  have cap: "scap ?rb = 80" "slen ?rb = 80"
    by (simp_all add: scap_def slen_def length_pages)
  have cnt: "sliceLoHi ?rb 4 8 = Inr \<lparr>elems = [1, 0, 0, 0], spare = drop 8 pageB\<rparr>"
    using sliceLoHi_nat [of 4 8 ?rb] by (simp add: cap) (simp add: mem_def pageB_def)
  have offs: "offsetsLoop ?rb 1 0 8 12 [] = Inr [16]"
    using offsetsLoop_result [of 0 8 12 ?rb 1 "[]"]
    by (simp add: cap) (simp add: fieldLE_def mem_def pageB_def)
  have s1: "sliceFrom ?rb 16 = Inr \<lparr>elems = recordN, spare = []\<rparr>"
    by (simp add: sliceFrom_def cap) (simp add: pageB_def)
  have raw: "rawCookiesLoop ?rb [16] [] = Inr [rawB1]"
    by (simp add: goInt_def s1 rawB1_def)
  show ?thesis
    by (simp add: extractCookiesFromPage_unfold zeroPage_def cnt bindE_def ParseUint_count_one
        goInt_def offs raw del: rawCookiesLoop.simps)
qed

lemma extractCookiesFromPages_twoPage:
  "extractCookiesFromPages
     \<lparr>pages = [zeroPage\<lparr>pageRawBytes := \<lparr>elems = pageA, spare = pageB\<rparr>\<rparr>,
                zeroPage\<lparr>pageRawBytes := \<lparr>elems = pageB, spare = []\<rparr>\<rparr>],
       numPages = 2, pageSizes = [148, 80], headerSize = 16\<rparr> =
   Inr \<lparr>pages = [zeroPage\<lparr>pageRawBytes := \<lparr>elems = pageA, spare = pageB\<rparr>,
                   numCookiesInPage := 2, cookieOffsets := [20, 84],
                   cookies := [rawA1, rawA2]\<rparr>,
                 zeroPage\<lparr>pageRawBytes := \<lparr>elems = pageB, spare = []\<rparr>,
                   numCookiesInPage := 1, cookieOffsets := [16], cookies := [rawB1]\<rparr>],
        numPages = 2, pageSizes = [148, 80], headerSize = 16\<rparr>"
  by (simp add: extractCookiesFromPages_def extractCookiesFromPage_A extractCookiesFromPage_B
      bindE_def)

lemma mainCookies_twoPage:
  "mainCookies oor twoPageData = Inr [decodedA1, decodedA2, decodedB1]"
proof -
  have "take 4 (elems twoPageData) = cook"
    by (simp add: twoPageData_def twoPageFile_def cook_def)
  then have chk: "checkFileMagicNumber twoPageData = Inr ()"
    by (simp add: checkFileMagicNumber_result twoPage_header)
  show ?thesis
    by (simp add: mainCookies_def chk extractPages_twoPage extractCookiesFromPages_twoPage
        decodeCookies_def decodeCookie_twoPage bindE_def)
qed

theorem mainCookies_count_and_order_witness:
  "mainCookies amd64Conv twoPageData = Inr [decodedA1, decodedA2, decodedB1]
   \<and> (\<exists>ps0 ps1. extractPages twoPageData = Inr ps0 \<and> extractCookiesFromPages ps0 = Inr ps1
        \<and> numPages ps0 = 2
        \<and> map pageRawBytes (pages ps1) =
            [\<lparr>elems = pageA, spare = pageB\<rparr>, \<lparr>elems = pageB, spare = []\<rparr>]
        \<and> map numCookiesInPage (pages ps1) = [2, 1]
        \<and> map cookieOffsets (pages ps1) = [[20, 84], [16]]
        \<and> length [decodedA1, decodedA2, decodedB1] =
            sum_list (map numCookiesInPage (pages ps1))
        \<and> concat (map (\<lambda>p. recordSpans (pageRawBytes p) (cookieOffsets p)) (pages ps1)) =
            [sampleRecord, recordX, recordN])
   \<and> map Name [decodedA1, decodedA2, decodedB1] = [[0x61], [0x78], [0x6e]]"
proof -
  have m: "mainCookies amd64Conv twoPageData = Inr [decodedA1, decodedA2, decodedB1]"
    by (rule mainCookies_twoPage)
  from mainCookies_count_and_order [OF m] obtain ps0 ps1 where
    e0: "extractPages twoPageData = Inr ps0" and
    e1: "extractCookiesFromPages ps0 = Inr ps1" and
    cnt: "length [decodedA1, decodedA2, decodedB1] = sum_list (map numCookiesInPage (pages ps1))" and
    ord: "map (\<lambda>c. elems (rawBytes c)) [decodedA1, decodedA2, decodedB1] =
        concat (map (\<lambda>p. recordSpans (pageRawBytes p) (cookieOffsets p)) (pages ps1))"
    by blast
  have ps0: "ps0 = \<lparr>pages = [zeroPage\<lparr>pageRawBytes := \<lparr>elems = pageA, spare = pageB\<rparr>\<rparr>,
                   zeroPage\<lparr>pageRawBytes := \<lparr>elems = pageB, spare = []\<rparr>\<rparr>],
          numPages = 2, pageSizes = [148, 80], headerSize = 16\<rparr>"
    using e0 by (simp add: extractPages_twoPage)
  have ps1: "ps1 = \<lparr>pages = [zeroPage\<lparr>pageRawBytes := \<lparr>elems = pageA, spare = pageB\<rparr>,
                   numCookiesInPage := 2, cookieOffsets := [20, 84],
                   cookies := [rawA1, rawA2]\<rparr>,
                 zeroPage\<lparr>pageRawBytes := \<lparr>elems = pageB, spare = []\<rparr>,
                   numCookiesInPage := 1, cookieOffsets := [16], cookies := [rawB1]\<rparr>],
        numPages = 2, pageSizes = [148, 80], headerSize = 16\<rparr>"
    using e1 unfolding ps0 by (simp add: extractCookiesFromPages_twoPage)
  have raws: "map (\<lambda>c. elems (rawBytes c)) [decodedA1, decodedA2, decodedB1] =
      [sampleRecord, recordX, recordN]"
    by (simp add: decodedA1_def decodedA2_def decodedB1_def rawA1_def rawA2_def rawB1_def)
  have names: "map Name [decodedA1, decodedA2, decodedB1] = [[0x61], [0x78], [0x6e]]"
    by (simp add: decodedA1_def decodedA2_def decodedB1_def)
  have f1: "numPages ps0 = 2"
    by (simp add: ps0)
  have f2: "map pageRawBytes (pages ps1) =
      [\<lparr>elems = pageA, spare = pageB\<rparr>, \<lparr>elems = pageB, spare = []\<rparr>]"
    by (simp add: ps1)
  have f3: "map numCookiesInPage (pages ps1) = [2, 1]"
    by (simp add: ps1)
  have f4: "map cookieOffsets (pages ps1) = [[20, 84], [16]]"
    by (simp add: ps1)
  have f5: "concat (map (\<lambda>p. recordSpans (pageRawBytes p) (cookieOffsets p)) (pages ps1)) =
      [sampleRecord, recordX, recordN]"
    using ord raws by simp
  have ex: "\<exists>ps0 ps1. extractPages twoPageData = Inr ps0 \<and> extractCookiesFromPages ps0 = Inr ps1
        \<and> numPages ps0 = 2
        \<and> map pageRawBytes (pages ps1) =
            [\<lparr>elems = pageA, spare = pageB\<rparr>, \<lparr>elems = pageB, spare = []\<rparr>]
        \<and> map numCookiesInPage (pages ps1) = [2, 1]
        \<and> map cookieOffsets (pages ps1) = [[20, 84], [16]]
        \<and> length [decodedA1, decodedA2, decodedB1] =
            sum_list (map numCookiesInPage (pages ps1))
        \<and> concat (map (\<lambda>p. recordSpans (pageRawBytes p) (cookieOffsets p)) (pages ps1)) =
            [sampleRecord, recordX, recordN]"
  proof (rule exI [of _ ps0], rule exI [of _ ps1])
    show "extractPages twoPageData = Inr ps0 \<and> extractCookiesFromPages ps0 = Inr ps1
        \<and> numPages ps0 = 2
        \<and> map pageRawBytes (pages ps1) =
            [\<lparr>elems = pageA, spare = pageB\<rparr>, \<lparr>elems = pageB, spare = []\<rparr>]
        \<and> map numCookiesInPage (pages ps1) = [2, 1]
        \<and> map cookieOffsets (pages ps1) = [[20, 84], [16]]
        \<and> length [decodedA1, decodedA2, decodedB1] =
            sum_list (map numCookiesInPage (pages ps1))
        \<and> concat (map (\<lambda>p. recordSpans (pageRawBytes p) (cookieOffsets p)) (pages ps1)) =
            [sampleRecord, recordX, recordN]"
      by (intro conjI) (rule e0 e1 f1 f2 f3 f4 cnt f5)+
  qed
  show ?thesis
    by (intro conjI) (rule m ex names)+
qed

end
